theory Spec2Isabelle
  imports Complex_Main "HOL-Library.Word" "HOL-Library.Log_Nat"
begin

section \<open>Python values used by the filters\<close>

text \<open>
  The filters of \<^verbatim>\<open>retro_image_converter.py\<close> raise no exception of their own; the ones
  below are those the interpreter and the imaging library raise inside them: integer or
  float division by zero, \<^verbatim>\<open>int()\<close> of an infinite float, a pixel read outside the image,
  and a resize to an empty size.
\<close>

datatype py_error = ZeroDivisionError | OverflowError | IndexError | ValueError

definition bind_err :: "py_error + 'a \<Rightarrow> ('a \<Rightarrow> py_error + 'b) \<Rightarrow> py_error + 'b" where
  "bind_err m f = (case m of Inl e \<Rightarrow> Inl e | Inr v \<Rightarrow> f v)"

subsection \<open>Floats\<close>

text \<open>
  A Python float is an IEEE 754 binary64 number. A finite float is modelled by the real
  number it denotes, and every arithmetic operation returns the exact result rounded to
  53 significant bits, ties to even (\<open>rnd\<close>). The exponent is not bounded in \<open>rnd\<close>:
  a rounded result of magnitude \<open>2 ^ 1024\<close> or more stands for an infinity (\<open>py_int\<close>
  raises on it, as \<^verbatim>\<open>int(float('inf'))\<close> does), and the coarser rounding of subnormal
  results (below \<open>2 ^ -1022\<close>) is not modelled.

  \<open>ilog2 x\<close> is the binary exponent of a positive \<open>x\<close>: \<open>2 ^ ilog2 x \<le> x < 2 ^ (ilog2 x + 1)\<close>.
\<close>

definition ilog2 :: "real \<Rightarrow> int" where
  "ilog2 x = (if 1 \<le> x then bitlen \<lfloor>x\<rfloor> - 1 else - bitlen (\<lceil>1 / x\<rceil> - 1))"

definition round_half_even :: "real \<Rightarrow> int" where
  "round_half_even q =
     (let n = \<lfloor>q\<rfloor>; d = q - of_int n
      in if d < 1 / 2 then n else if 1 / 2 < d then n + 1 else if even n then n else n + 1)"

definition rnd :: "real \<Rightarrow> real" where
  "rnd x =
     (if x = 0 then 0
      else let ulp = 2 powi (ilog2 \<bar>x\<bar> - 52)
           in of_int (round_half_even (x / ulp)) * ulp)"

definition fl_add :: "real \<Rightarrow> real \<Rightarrow> real" where
  "fl_add a b = rnd (a + b)"

definition fl_sub :: "real \<Rightarrow> real \<Rightarrow> real" where
  "fl_sub a b = rnd (a - b)"

definition fl_mul :: "real \<Rightarrow> real \<Rightarrow> real" where
  "fl_mul a b = rnd (a * b)"

text \<open>\<^verbatim>\<open>a / b\<close> on floats raises when the divisor is zero.\<close>

definition fl_div :: "real \<Rightarrow> real \<Rightarrow> py_error + real" where
  "fl_div a b = (if b = 0 then Inl ZeroDivisionError else Inr (rnd (a / b)))"

text \<open>\<^verbatim>\<open>math.sqrt\<close> is correctly rounded; \<^verbatim>\<open>x ** 2\<close> is taken as the rounded square.\<close>

definition fl_sqrt :: "real \<Rightarrow> real" where
  "fl_sqrt a = rnd (sqrt a)"

definition fl_sq :: "real \<Rightarrow> real" where
  "fl_sq a = rnd (a * a)"

text \<open>\<^verbatim>\<open>int(x)\<close> truncates a float toward zero and raises on an infinity.\<close>

definition trunc :: "real \<Rightarrow> int" where
  "trunc x = (if 0 \<le> x then \<lfloor>x\<rfloor> else \<lceil>x\<rceil>)"

definition py_int :: "real \<Rightarrow> py_error + int" where
  "py_int x = (if 2 ^ 1024 \<le> \<bar>x\<bar> then Inl OverflowError else Inr (trunc x))"

section \<open>Images and arrays\<close>

text \<open>
  An RGB image of the imaging library: its size and its 8-bit pixels, addressed
  \<open>pix img x y\<close> (column, row) as \<^verbatim>\<open>image.load()[x, y]\<close> and \<^verbatim>\<open>getpixel((x, y))\<close> are.
  Only the pixels inside the size are part of the image.
\<close>

type_synonym u8 = "8 word"

type_synonym pixel = "u8 \<times> u8 \<times> u8"

definition red :: "pixel \<Rightarrow> u8" where
  "red p = fst p"

definition green :: "pixel \<Rightarrow> u8" where
  "green p = fst (snd p)"

definition blue :: "pixel \<Rightarrow> u8" where
  "blue p = snd (snd p)"

record image =
  width :: nat
  height :: nat
  pix :: "nat \<Rightarrow> nat \<Rightarrow> pixel"

text \<open>The library keeps both sizes in a C \<^verbatim>\<open>int\<close>.\<close>

definition wf_image :: "image \<Rightarrow> bool" where
  "wf_image img \<longleftrightarrow> width img < 2 ^ 31 \<and> height img < 2 ^ 31"

definition black :: pixel where
  "black = (0, 0, 0)"

definition image_new :: "nat \<Rightarrow> nat \<Rightarrow> pixel \<Rightarrow> image" where
  "image_new w h c = \<lparr>width = w, height = h, pix = (\<lambda>x y. c)\<rparr>"

text \<open>
  A two-dimensional numpy array: its shape and its rows. \<^verbatim>\<open>np.array(image)\<close> has one row
  per image row (shape \<open>(height, width, 3)\<close>); a channel plane is the array of one
  component of every pixel.
\<close>

record 'a ndarray =
  nrows :: nat
  ncols :: nat
  elems :: "'a list list"

definition np_array :: "image \<Rightarrow> pixel ndarray" where
  "np_array img =
     \<lparr>nrows = height img, ncols = width img,
      elems = map (\<lambda>y. map (\<lambda>x. pix img x y) [0..<width img]) [0..<height img]\<rparr>"

definition plane :: "(pixel \<Rightarrow> u8) \<Rightarrow> pixel ndarray \<Rightarrow> u8 ndarray" where
  "plane f a = \<lparr>nrows = nrows a, ncols = ncols a, elems = map (map f) (elems a)\<rparr>"

text \<open>
  \<^verbatim>\<open>np.roll\<close> along one axis of length \<open>n\<close>: the offset is \<^verbatim>\<open>shift % (n or 1)\<close>, and for a
  nonzero offset the result is the last \<open>offset\<close> entries followed by the others.
\<close>

definition roll_list :: "'a list \<Rightarrow> int \<Rightarrow> 'a list" where
  "roll_list xs shift =
     (let n = length xs;
          offset = nat (shift mod int (if n = 0 then 1 else n))
      in if offset = 0 then xs else drop (n - offset) xs @ take (n - offset) xs)"

definition np_roll :: "'a ndarray \<Rightarrow> int \<Rightarrow> nat \<Rightarrow> 'a ndarray" where
  "np_roll a shift axis =
     \<lparr>nrows = nrows a, ncols = ncols a,
      elems = (if axis = 0 then roll_list (elems a) shift
               else map (\<lambda>row. roll_list row shift) (elems a))\<rparr>"

text \<open>
  \<^verbatim>\<open>.astype(np.uint8)\<close> of a float: the fraction is dropped; a value inside \<open>[0, 256)\<close> is
  kept, and one outside is reduced to its low eight bits.
\<close>

definition astype_uint8 :: "real \<Rightarrow> u8" where
  "astype_uint8 x = word_of_int (trunc x)"

definition np_stack :: "u8 ndarray \<Rightarrow> u8 ndarray \<Rightarrow> u8 ndarray \<Rightarrow> pixel ndarray" where
  "np_stack rs gs bs =
     \<lparr>nrows = nrows rs, ncols = ncols rs,
      elems = map (\<lambda>(r, g, b). zip r (zip g b)) (zip (elems rs) (zip (elems gs) (elems bs)))\<rparr>"

definition fromarray :: "pixel ndarray \<Rightarrow> image" where
  "fromarray a = \<lparr>width = ncols a, height = nrows a, pix = (\<lambda>x y. elems a ! y ! x)\<rparr>"

section \<open>The channel-shift (glitch) filter\<close>

text \<open>
  \<^verbatim>\<open>intensity * shifted + (1 - intensity) * channel\<close>, element by element in float
  arithmetic, then \<^verbatim>\<open>.astype(np.uint8)\<close>.
\<close>

definition blend_value :: "real \<Rightarrow> u8 \<Rightarrow> u8 \<Rightarrow> real" where
  "blend_value intensity shifted orig =
     fl_add (fl_mul intensity (real (unat shifted)))
            (fl_mul (fl_sub 1 intensity) (real (unat orig)))"

definition blend :: "real \<Rightarrow> u8 \<Rightarrow> u8 \<Rightarrow> u8" where
  "blend intensity shifted orig = astype_uint8 (blend_value intensity shifted orig)"

definition blend_planes :: "real \<Rightarrow> u8 ndarray \<Rightarrow> u8 ndarray \<Rightarrow> u8 ndarray" where
  "blend_planes intensity shifted orig =
     \<lparr>nrows = nrows orig, ncols = ncols orig,
      elems = map2 (map2 (blend intensity)) (elems shifted) (elems orig)\<rparr>"

definition shifted_red :: "image \<Rightarrow> int \<Rightarrow> u8 ndarray" where
  "shifted_red img shift_amount = np_roll (plane red (np_array img)) shift_amount 1"

text \<open>\<^verbatim>\<open>-shift_amount // 2\<close> negates first and then divides, rounding down.\<close>

definition shifted_green :: "image \<Rightarrow> int \<Rightarrow> u8 ndarray" where
  "shifted_green img shift_amount =
     np_roll (plane green (np_array img)) ((- shift_amount) div 2) 0"

definition apply_refined_glitch_effect :: "image \<Rightarrow> int \<Rightarrow> real \<Rightarrow> image" where
  "apply_refined_glitch_effect img shift_amount intensity =
     (let img_array = np_array img;
          red_channel = plane red img_array;
          green_channel = plane green img_array;
          blue_channel = plane blue img_array;
          blended_red = blend_planes intensity (shifted_red img shift_amount) red_channel;
          blended_green = blend_planes intensity (shifted_green img shift_amount) green_channel;
          refined_glitched_img = np_stack blended_red blended_green blue_channel
      in fromarray refined_glitched_img)"

text \<open>
  The green shift as the specification words it: \<open>shift_amount / 2\<close> truncated toward
  zero, negated.
\<close>

definition spec_green_shift :: "int \<Rightarrow> int" where
  "spec_green_shift shift_amount = - (sgn shift_amount * (\<bar>shift_amount\<bar> div 2))"

text \<open>
  The blend in exact arithmetic, and as the specification words it: rounded to the
  nearest integer and saturated to \<open>[0, 255]\<close>.
\<close>

definition exact_blend :: "real \<Rightarrow> u8 \<Rightarrow> u8 \<Rightarrow> real" where
  "exact_blend intensity shifted orig =
     intensity * real (unat shifted) + (1 - intensity) * real (unat orig)"

definition spec_blend :: "real \<Rightarrow> u8 \<Rightarrow> u8 \<Rightarrow> int" where
  "spec_blend intensity shifted orig =
     max 0 (min 255 (round (exact_blend intensity shifted orig)))"

section \<open>The subpixel (LCD) renderer\<close>

text \<open>
  A \<^verbatim>\<open>for\<close> loop whose body may raise: the first error ends the loop.
\<close>

fun for_each :: "'i list \<Rightarrow> ('i \<Rightarrow> 's \<Rightarrow> py_error + 's) \<Rightarrow> 's \<Rightarrow> py_error + 's" where
  "for_each [] body s = Inr s"
| "for_each (i # rest) body s = bind_err (body i s) (for_each rest body)"

text \<open>
  A colour given as a tuple of Python integers is stored with each component clipped
  to \<open>[0, 255]\<close>.
\<close>

definition clip8 :: "int \<Rightarrow> u8" where
  "clip8 v = word_of_int (max 0 (min 255 v))"

definition ink :: "int \<times> int \<times> int \<Rightarrow> pixel" where
  "ink c = (case c of (r, g, b) \<Rightarrow> (clip8 r, clip8 g, clip8 b))"

text \<open>
  \<^verbatim>\<open>draw.rectangle([x0, y0, x1, y1], fill)\<close> fills every pixel of the image with
  \<open>x0 \<le> x \<le> x1\<close> and \<open>y0 \<le> y \<le> y1\<close>: both corners are inside the rectangle.
\<close>

definition draw_rectangle :: "image \<Rightarrow> nat \<times> nat \<times> nat \<times> nat \<Rightarrow> pixel \<Rightarrow> image" where
  "draw_rectangle img box fill =
     (case box of (x0, y0, x1, y1) \<Rightarrow>
        img\<lparr>pix := (\<lambda>x y. if x < width img \<and> y < height img \<and>
                               x0 \<le> x \<and> x \<le> x1 \<and> y0 \<le> y \<and> y \<le> y1
                            then fill else pix img x y)\<rparr>)"

text \<open>\<^verbatim>\<open>min(int(c * brightness_boost), 255)\<close> for one channel value \<open>c\<close>.\<close>

definition boost_channel :: "u8 \<Rightarrow> real \<Rightarrow> py_error + int" where
  "boost_channel c brightness_boost =
     bind_err (py_int (fl_mul (real (unat c)) brightness_boost)) (\<lambda>v. Inr (min v 255))"

text \<open>The three rectangles of one block, in the order the source draws them.\<close>

definition draw_block :: "image \<Rightarrow> nat \<Rightarrow> string \<Rightarrow> nat \<Rightarrow> nat \<Rightarrow> int \<times> int \<times> int \<Rightarrow> image" where
  "draw_block lcd_image pixel_size orientation x y c =
     (case c of (r, g, b) \<Rightarrow>
      let base_x = x * pixel_size;
          base_y = y * pixel_size;
          subpixel_size = pixel_size div 3
      in if orientation = ''vertical'' then
           draw_rectangle
             (draw_rectangle
               (draw_rectangle lcd_image
                  (base_x, base_y, base_x + subpixel_size, base_y + pixel_size) (ink (r, 0, 0)))
               (base_x + subpixel_size, base_y, base_x + 2 * subpixel_size, base_y + pixel_size)
               (ink (0, g, 0)))
             (base_x + 2 * subpixel_size, base_y, base_x + pixel_size, base_y + pixel_size)
             (ink (0, 0, b))
         else if orientation = ''horizontal'' then
           draw_rectangle
             (draw_rectangle
               (draw_rectangle lcd_image
                  (base_x, base_y, base_x + pixel_size, base_y + subpixel_size) (ink (r, 0, 0)))
               (base_x, base_y + subpixel_size, base_x + pixel_size, base_y + 2 * subpixel_size)
               (ink (0, g, 0)))
             (base_x, base_y + 2 * subpixel_size, base_x + pixel_size, base_y + pixel_size)
             (ink (0, 0, b))
         else lcd_image)"

definition boosted :: "pixel \<Rightarrow> real \<Rightarrow> py_error + int \<times> int \<times> int" where
  "boosted p brightness_boost =
     (case p of (r, g, b) \<Rightarrow>
        bind_err (boost_channel r brightness_boost) (\<lambda>r'.
        bind_err (boost_channel g brightness_boost) (\<lambda>g'.
        bind_err (boost_channel b brightness_boost) (\<lambda>b'. Inr (r', g', b')))))"

definition lcd_step ::
  "image \<Rightarrow> nat \<Rightarrow> real \<Rightarrow> string \<Rightarrow> nat \<Rightarrow> nat \<Rightarrow> image \<Rightarrow> py_error + image" where
  "lcd_step small pixel_size brightness_boost orientation y x lcd_image =
     bind_err (boosted (pix small x y) brightness_boost)
       (\<lambda>c. Inr (draw_block lcd_image pixel_size orientation x y c))"

text \<open>
  \<^verbatim>\<open>Image.resize(size, BOX)\<close> of the imaging library: it returns a copy of the image
  when the size is unchanged, raises \<^verbatim>\<open>ValueError\<close> when the requested width or height is
  0, and otherwise returns an image of the requested size. The pixels of that image come
  from the library's BOX resampling kernel, the parameter \<open>box\<close>.
\<close>

definition image_resize ::
  "(image \<Rightarrow> nat \<times> nat \<Rightarrow> nat \<Rightarrow> nat \<Rightarrow> pixel) \<Rightarrow> image \<Rightarrow> nat \<times> nat \<Rightarrow> py_error + image" where
  "image_resize box img sz =
     (if sz = (width img, height img) then Inr img
      else if fst sz < 1 \<or> snd sz < 1 then Inl ValueError
      else Inr \<lparr>width = fst sz, height = snd sz, pix = box img sz\<rparr>)"

definition apply_lcd_pixel_effect ::
  "(image \<Rightarrow> nat \<times> nat \<Rightarrow> nat \<Rightarrow> nat \<Rightarrow> pixel) \<Rightarrow> image \<Rightarrow> nat \<Rightarrow> real \<Rightarrow> string
     \<Rightarrow> py_error + image" where
  "apply_lcd_pixel_effect box img pixel_size brightness_boost orientation =
     (if pixel_size = 0 then Inl ZeroDivisionError
      else bind_err (image_resize box img (width img div pixel_size, height img div pixel_size))
        (\<lambda>small.
           let w = width small;
               h = height small;
               lcd_image = image_new (w * pixel_size) (h * pixel_size) black
           in for_each [0..<h]
                (\<lambda>y. for_each [0..<w]
                   (lcd_step small pixel_size brightness_boost orientation y))
                lcd_image))"

text \<open>The downsampled image of line 10, when the resize returns one.\<close>

definition downsampled ::
  "(image \<Rightarrow> nat \<times> nat \<Rightarrow> nat \<Rightarrow> nat \<Rightarrow> pixel) \<Rightarrow> image \<Rightarrow> nat \<Rightarrow> image" where
  "downsampled box img pixel_size =
     projr (image_resize box img (width img div pixel_size, height img div pixel_size))"




definition boost_level :: "u8 \<Rightarrow> real \<Rightarrow> int" where
  "boost_level c brightness_boost = min (trunc (fl_mul (real (unat c)) brightness_boost)) 255"


section \<open>The radial warp (CRT) filter\<close>

text \<open>A Python integer converted to a float for mixed arithmetic.\<close>

definition py_float :: "int \<Rightarrow> real" where
  "py_float n = rnd (of_int n)"

text \<open>
  \<^verbatim>\<open>image.load()[x, y]\<close>: a read outside the image raises. (The library counts a negative
  index from the far edge; here it is out of range as well.)
\<close>

definition load_get :: "image \<Rightarrow> int \<Rightarrow> int \<Rightarrow> py_error + pixel" where
  "load_get img x y =
     (if 0 \<le> x \<and> x < int (width img) \<and> 0 \<le> y \<and> y < int (height img)
      then Inr (pix img (nat x) (nat y)) else Inl IndexError)"

definition load_set :: "image \<Rightarrow> nat \<Rightarrow> nat \<Rightarrow> pixel \<Rightarrow> image" where
  "load_set img x y p = img\<lparr>pix := (\<lambda>x' y'. if x' = x \<and> y' = y then p else pix img x' y')\<rparr>"

definition chan :: "pixel \<Rightarrow> nat \<Rightarrow> u8" where
  "chan p i = (if i = 0 then red p else if i = 1 then green p else blue p)"

text \<open>The source coordinate \<open>(src_x, src_y)\<close> of destination pixel \<open>(x, y)\<close>.\<close>

definition warp_source :: "image \<Rightarrow> real \<Rightarrow> nat \<Rightarrow> nat \<Rightarrow> py_error + real \<times> real" where
  "warp_source img strength x y =
     (let center_x = rnd (real (width img) / 2);
          center_y = rnd (real (height img) / 2);
          max_distance = fl_sqrt (fl_add (fl_sq center_x) (fl_sq center_y));
          dx = fl_sub (py_float (int x)) center_x;
          dy = fl_sub (py_float (int y)) center_y;
          distance = fl_sqrt (fl_add (fl_sq dx) (fl_sq dy))
      in bind_err (fl_div distance max_distance) (\<lambda>q.
           let distortion = fl_add 1 (fl_mul strength (fl_sq q))
           in bind_err (fl_div dx distortion) (\<lambda>qx.
              bind_err (fl_div dy distortion) (\<lambda>qy.
                Inr (fl_add center_x qx, fl_add center_y qy)))))"

text \<open>The second interpolation neighbour: \<^verbatim>\<open>min(x0 + 1, width - 1)\<close>.\<close>

definition neighbour :: "int \<Rightarrow> nat \<Rightarrow> int" where
  "neighbour c n = min (c + 1) (int n - 1)"

text \<open>One channel of the interpolated pixel: four reads, the weighted sum, \<^verbatim>\<open>int()\<close>.\<close>

definition interpolate ::
  "image \<Rightarrow> real \<Rightarrow> real \<Rightarrow> int \<Rightarrow> int \<Rightarrow> int \<Rightarrow> int \<Rightarrow> nat \<Rightarrow> py_error + int" where
  "interpolate img a b x0 y0 x1 y1 i =
     bind_err (load_get img x0 y0) (\<lambda>p00.
     bind_err (load_get img x1 y0) (\<lambda>p10.
     bind_err (load_get img x0 y1) (\<lambda>p01.
     bind_err (load_get img x1 y1) (\<lambda>p11.
       py_int
         (fl_add
           (fl_add
             (fl_add
               (fl_mul (fl_mul (fl_sub 1 a) (fl_sub 1 b)) (real (unat (chan p00 i))))
               (fl_mul (fl_mul a (fl_sub 1 b)) (real (unat (chan p10 i)))))
             (fl_mul (fl_mul (fl_sub 1 a) b) (real (unat (chan p01 i)))))
           (fl_mul (fl_mul a b) (real (unat (chan p11 i)))))))))"

text \<open>
  The body of the inner loop: \<open>Some\<close> the pixel written at \<open>(x, y)\<close>, or \<open>None\<close> when the
  bounds check fails and the destination keeps its initial black.
\<close>

definition warp_pixel :: "image \<Rightarrow> real \<Rightarrow> nat \<Rightarrow> nat \<Rightarrow> py_error + pixel option" where
  "warp_pixel img strength x y =
     bind_err (warp_source img strength x y) (\<lambda>(src_x, src_y).
     bind_err (py_int src_x) (\<lambda>x0.
     bind_err (py_int src_y) (\<lambda>y0.
       let x1 = neighbour x0 (width img);
           y1 = neighbour y0 (height img);
           a = fl_sub src_x (py_float x0);
           b = fl_sub src_y (py_float y0)
       in if 0 \<le> x0 \<and> x0 < int (width img) \<and> 0 \<le> y0 \<and> y0 < int (height img) then
            bind_err (interpolate img a b x0 y0 x1 y1 0) (\<lambda>r.
            bind_err (interpolate img a b x0 y0 x1 y1 1) (\<lambda>g.
            bind_err (interpolate img a b x0 y0 x1 y1 2) (\<lambda>b'.
              Inr (Some (ink (r, g, b'))))))
          else Inr None)))"

definition warp_step :: "image \<Rightarrow> real \<Rightarrow> nat \<Rightarrow> nat \<Rightarrow> image \<Rightarrow> py_error + image" where
  "warp_step img strength y x warped_image =
     bind_err (warp_pixel img strength x y)
       (\<lambda>r. Inr (case r of None \<Rightarrow> warped_image | Some p \<Rightarrow> load_set warped_image x y p))"

definition apply_crt_warp_effect :: "image \<Rightarrow> real \<Rightarrow> py_error + image" where
  "apply_crt_warp_effect img strength =
     for_each [0..<height img]
       (\<lambda>y. for_each [0..<width img] (warp_step img strength y))
       (image_new (width img) (height img) black)"

section \<open>The corner mask\<close>

text \<open>
  \<^verbatim>\<open>draw.rounded_rectangle\<close> on the new single-channel mask and the mixing of source and
  destination under an intermediate mask value belong to the imaging library: they are
  the parameters \<open>rounded_rectangle\<close> (the mask it leaves, from the mask size, the box,
  the radius and the fill) and \<open>mix\<close>. \<^verbatim>\<open>paste\<close> copies the source where the mask is 255 and
  keeps the destination where it is 0.
\<close>

definition paste ::
  "(u8 \<Rightarrow> pixel \<Rightarrow> pixel \<Rightarrow> pixel) \<Rightarrow> image \<Rightarrow> image \<Rightarrow> (nat \<Rightarrow> nat \<Rightarrow> u8) \<Rightarrow> image" where
  "paste mix dst src alpha =
     dst\<lparr>pix := (\<lambda>x y. if x < width src \<and> y < height src \<and> x < width dst \<and> y < height dst
                         then (if alpha x y = 255 then pix src x y
                               else if alpha x y = 0 then pix dst x y
                               else mix (alpha x y) (pix src x y) (pix dst x y))
                         else pix dst x y)\<rparr>"

definition round_corners ::
  "(nat \<times> nat \<Rightarrow> nat \<times> nat \<times> nat \<times> nat \<Rightarrow> int \<Rightarrow> u8 \<Rightarrow> nat \<Rightarrow> nat \<Rightarrow> u8)
     \<Rightarrow> (u8 \<Rightarrow> pixel \<Rightarrow> pixel \<Rightarrow> pixel) \<Rightarrow> image \<Rightarrow> int \<Rightarrow> image" where
  "round_corners rounded_rectangle mix img radius =
     (let alpha = rounded_rectangle (width img, height img)
                    (0, 0, width img, height img) radius 255;
          rounded_image = image_new (width img) (height img) black
      in paste mix rounded_image img alpha)"

section \<open>Sample images\<close>

text \<open>A column of four pixels whose green value is the row number.\<close>

definition column4 :: image where
  "column4 = \<lparr>width = 1, height = 4, pix = (\<lambda>x y. (0, of_nat y, 0))\<rparr>"

text \<open>A row of two pixels whose red value is the column number.\<close>

definition pair_row :: image where
  "pair_row = \<lparr>width = 2, height = 1, pix = (\<lambda>x y. (of_nat x, 0, 0))\<rparr>"

text \<open>A single pixel of red value 3.\<close>

definition single3 :: image where
  "single3 = \<lparr>width = 1, height = 1, pix = (\<lambda>x y. (3, 0, 0))\<rparr>"

text \<open>The float written \<^verbatim>\<open>0.01\<close>: \<^verbatim>\<open>(0.01).as_integer_ratio()\<close>.\<close>

definition intensity_001 :: real where
  "intensity_001 = 5764607523034235 / 576460752303423488"

text \<open>
  Averaging a block of equal pixels gives that pixel. The images below that are
  downsampled are constant on every block, and the kernel used with them takes the first
  pixel of each block.
\<close>

definition block_sample :: "image \<Rightarrow> nat \<times> nat \<Rightarrow> nat \<Rightarrow> nat \<Rightarrow> pixel" where
  "block_sample img sz x y =
     pix img (x * (width img div fst sz)) (y * (height img div snd sz))"

text \<open>
  A 6 by 3 image of two 3 by 3 blocks, \<open>(10, 50, 200)\<close> and \<open>(50, 50, 200)\<close>; single pixels
  of value 1 and of value 200; and a 2 by 2 image.
\<close>

definition blocks6x3 :: image where
  "blocks6x3 = \<lparr>width = 6, height = 3, pix = (\<lambda>x y. (of_nat (40 * (x div 3) + 10), 50, 200))\<rparr>"


definition gray200 :: image where
  "gray200 = \<lparr>width = 1, height = 1, pix = (\<lambda>x y. (200, 200, 200))\<rparr>"

definition small2x2 :: image where
  "small2x2 = \<lparr>width = 2, height = 2, pix = (\<lambda>x y. (10, 20, 30))\<rparr>"

section \<open>Properties of the float model\<close>

lemma ilog2_bounds:
  assumes "0 < x"
  shows "2 powi (ilog2 x) \<le> x \<and> x < 2 powi (ilog2 x + 1)"
proof (cases "1 \<le> x")
  case True
  define n where "n = \<lfloor>x\<rfloor>"
  have n1: "1 \<le> n" using True by (simp add: n_def le_floor_iff)
  then have npos: "0 < n" by simp
  from bitlen_bounds [OF npos]
  have lo: "2 ^ nat (bitlen n - 1) \<le> n" and hi: "n < 2 ^ nat (bitlen n)" by auto
  have bl: "1 \<le> bitlen n" using npos by (simp add: bitlen_alt_def)
  have e: "ilog2 x = bitlen n - 1" using True by (simp add: ilog2_def n_def)
  have "(2::real) powi (bitlen n - 1) = 2 ^ nat (bitlen n - 1)"
    using bl by (simp add: power_int_nonneg_exp)
  also have "\<dots> = of_int (2 ^ nat (bitlen n - 1))" by simp
  also have "\<dots> \<le> of_int n" using lo by (simp only: of_int_le_iff)
  also have "\<dots> \<le> x" by (simp add: n_def)
  finally have A: "2 powi (ilog2 x) \<le> x" by (simp add: e)
  have "n + 1 \<le> 2 ^ nat (bitlen n)" using hi by simp
  then have "real_of_int (n + 1) \<le> of_int (2 ^ nat (bitlen n))" by (simp only: of_int_le_iff)
  moreover have "x < real_of_int (n + 1)" by (simp add: n_def)
  ultimately have "x < of_int (2 ^ nat (bitlen n))" by linarith
  also have "\<dots> = (2::real) powi (bitlen n)" using bl by (simp add: power_int_nonneg_exp)
  finally have B: "x < 2 powi (ilog2 x + 1)" by (simp add: e)
  from A B show ?thesis by simp
next
  case False
  define y where "y = 1 / x"
  define m where "m = \<lceil>y\<rceil> - 1"
  have y1: "1 < y" using False assms by (simp add: y_def)
  have "1 < \<lceil>y\<rceil>" using y1 by (simp add: less_ceiling_iff)
  then have mpos: "0 < m" by (simp add: m_def)
  from bitlen_bounds [OF mpos]
  have lo: "2 ^ nat (bitlen m - 1) \<le> m" and hi: "m < 2 ^ nat (bitlen m)" by auto
  have bl: "1 \<le> bitlen m" using mpos by (simp add: bitlen_alt_def)
  have e: "ilog2 x = - bitlen m" using False by (simp add: ilog2_def m_def y_def)
  have my: "of_int m < y" "y \<le> of_int m + 1"
    by (simp_all add: m_def ceiling_correct less_ceiling_iff [symmetric])
  have x: "x = 1 / y" using assms by (simp add: y_def)
  have "m + 1 \<le> 2 ^ nat (bitlen m)" using hi by simp
  then have "real_of_int (m + 1) \<le> of_int (2 ^ nat (bitlen m))" by (simp only: of_int_le_iff)
  then have "y \<le> 2 ^ nat (bitlen m)" using my by simp
  also have "\<dots> = (2::real) powi (bitlen m)" using bl by (simp add: power_int_nonneg_exp)
  finally have "y \<le> 2 powi (bitlen m)" .
  then have "1 / (2 powi (bitlen m)) \<le> 1 / y" using y1 by (simp add: frac_le)
  then have "2 powi (- bitlen m) \<le> x" by (simp add: x power_int_minus_divide)
  then have A: "2 powi (ilog2 x) \<le> x" by (simp only: e)
  have "(2::real) ^ nat (bitlen m - 1) = of_int (2 ^ nat (bitlen m - 1))" by simp
  also have "\<dots> \<le> of_int m" using lo by (simp only: of_int_le_iff)
  also have "\<dots> < y" by (rule my)
  finally have "2 ^ nat (bitlen m - 1) < y" .
  moreover have "(2::real) ^ nat (bitlen m - 1) = 2 powi (bitlen m - 1)"
    using bl by (simp add: power_int_nonneg_exp)
  ultimately have "2 powi (bitlen m - 1) < y" by simp
  then have "1 / y < 1 / (2 powi (bitlen m - 1))" by (simp add: frac_less2)
  also have "\<dots> = 2 powi (- (bitlen m - 1))" by (simp only: power_int_minus_divide)
  finally have "x < 2 powi (- bitlen m + 1)" by (simp add: x)
  then have B: "x < 2 powi (ilog2 x + 1)" by (simp only: e)
  from A B show ?thesis by simp
qed

lemma pow2_less_D: "(2::real) powi a < 2 powi b \<Longrightarrow> a < b"
  using power_int_increasing [of b a "2::real"] by (cases "a < b") auto

lemma ilog2_eqI:
  assumes "2 powi e \<le> x" and "x < 2 powi (e + 1)"
  shows "ilog2 x = e"
proof -
  have xpos: "0 < x" using assms(1) by (smt (verit) zero_less_power_int)
  from ilog2_bounds [OF xpos]
  have lo: "2 powi (ilog2 x) \<le> x" and hi: "x < 2 powi (ilog2 x + 1)" by auto
  have "(2::real) powi e < 2 powi (ilog2 x + 1)" using assms(1) hi by linarith
  then have "e < ilog2 x + 1" by (rule pow2_less_D)
  moreover have "(2::real) powi (ilog2 x) < 2 powi (e + 1)" using lo assms(2) by linarith
  then have "ilog2 x < e + 1" by (rule pow2_less_D)
  ultimately show ?thesis by simp
qed

lemma rhe_err: "\<bar>of_int (round_half_even q) - q\<bar> \<le> 1 / 2"
  unfolding round_half_even_def Let_def by (auto; linarith)

lemma rhe_of_int [simp]: "round_half_even (of_int n) = n"
  by (simp add: round_half_even_def)

lemma rnd_err_ulp:
  assumes "x \<noteq> 0"
  shows "\<bar>rnd x - x\<bar> \<le> 2 powi (ilog2 \<bar>x\<bar> - 53)"
proof -
  define u :: real where "u = 2 powi (ilog2 \<bar>x\<bar> - 52)"
  have upos: "0 < u" by (simp add: u_def)
  have r: "rnd x = of_int (round_half_even (x / u)) * u"
    using assms by (simp add: rnd_def u_def Let_def)
  have "rnd x - x = (of_int (round_half_even (x / u)) - x / u) * u"
    using upos by (simp add: r field_simps)
  then have "\<bar>rnd x - x\<bar> = \<bar>of_int (round_half_even (x / u)) - x / u\<bar> * u"
    using upos by (simp add: abs_mult)
  also have "\<dots> \<le> (1 / 2) * u"
    using rhe_err [of "x / u"] upos by (intro mult_right_mono) auto
  also have "\<dots> = 2 powi (ilog2 \<bar>x\<bar> - 53)"
  proof -
    have "(2::real) powi (ilog2 \<bar>x\<bar> - 52) = 2 powi (ilog2 \<bar>x\<bar> - 53 + 1)" by simp
    also have "\<dots> = 2 powi (ilog2 \<bar>x\<bar> - 53) * 2" by (rule power_int_add_1) simp
    finally show ?thesis by (simp add: u_def)
  qed
  finally show ?thesis .
qed

lemma rnd_rel_err: "\<bar>rnd x - x\<bar> \<le> \<bar>x\<bar> / 2 ^ 53"
proof (cases "x = 0")
  case True
  then show ?thesis by (simp add: rnd_def)
next
  case False
  then have "0 < \<bar>x\<bar>" by simp
  from ilog2_bounds [OF this] have lo: "2 powi (ilog2 \<bar>x\<bar>) \<le> \<bar>x\<bar>" by simp
  have "(2::real) powi (ilog2 \<bar>x\<bar> - 53) = 2 powi (ilog2 \<bar>x\<bar>) / 2 ^ 53"
    by (simp add: power_int_diff)
  also have "\<dots> \<le> \<bar>x\<bar> / 2 ^ 53" using lo by (simp add: divide_right_mono)
  finally show ?thesis using rnd_err_ulp [OF False] by linarith
qed

lemma rnd_exact:
  assumes "\<bar>m\<bar> < 2 ^ 53"
  shows "rnd (of_int m * 2 powi j) = of_int m * 2 powi j"
proof (cases "m = 0")
  case True
  then show ?thesis by (simp add: rnd_def)
next
  case False
  define x :: real where "x = of_int m * 2 powi j"
  define e where "e = ilog2 \<bar>x\<bar>"
  have xne: "x \<noteq> 0" using False by (simp add: x_def)
  then have "0 < \<bar>x\<bar>" by simp
  from ilog2_bounds [OF this] have lo: "2 powi e \<le> \<bar>x\<bar>" by (simp add: e_def)
  have absx: "\<bar>x\<bar> = of_int \<bar>m\<bar> * 2 powi j" by (simp add: x_def abs_mult)
  have "real_of_int \<bar>m\<bar> < of_int (2 ^ 53)" using assms by (simp only: of_int_less_iff)
  then have "real_of_int \<bar>m\<bar> < 2 ^ 53" by simp
  then have "\<bar>x\<bar> < 2 ^ 53 * 2 powi j" unfolding absx by (simp add: mult_strict_right_mono)
  also have "\<dots> = 2 powi (53 + j)" by (simp add: power_int_add)
  finally have "(2::real) powi e < 2 powi (53 + j)" using lo by linarith
  then have elt: "e < 53 + j" by (rule pow2_less_D)
  define d where "d = nat (j - (e - 52))"
  have dj: "j = int d + (e - 52)" using elt by (simp add: d_def)
  have "(2::real) powi j = 2 powi (int d) * 2 powi (e - 52)"
    by (subst dj) (simp add: power_int_add)
  then have pj: "(2::real) powi j = 2 ^ d * 2 powi (e - 52)" by simp
  have q: "x / 2 powi (e - 52) = of_int (m * 2 ^ d)"
    by (simp add: x_def pj)
  have "rnd x = of_int (round_half_even (x / 2 powi (e - 52))) * 2 powi (e - 52)"
    using xne by (simp add: rnd_def e_def Let_def)
  also have "\<dots> = of_int (m * 2 ^ d) * 2 powi (e - 52)"
    by (simp only: q rhe_of_int)
  also have "\<dots> = x" by (simp add: x_def pj)
  finally show ?thesis by (simp add: x_def)
qed

lemma rnd_of_int: "\<bar>m\<bar> < 2 ^ 53 \<Longrightarrow> rnd (of_int m) = of_int m"
  using rnd_exact [of m 0] by simp

lemma rnd_of_nat: "n < 2 ^ 53 \<Longrightarrow> rnd (real n) = real n"
  using rnd_of_int [of "int n"] by simp

lemma rnd_half: "\<bar>m\<bar> < 2 ^ 53 \<Longrightarrow> rnd (of_int m / 2) = of_int m / 2"
  using rnd_exact [of m "-1"] by simp

lemma rnd_0 [simp]: "rnd 0 = 0"
  by (simp add: rnd_def)

lemma rnd_1 [simp]: "rnd 1 = 1"
  using rnd_of_int [of 1] by simp

lemma rnd_nonneg: "0 \<le> x \<Longrightarrow> 0 \<le> rnd x"
  using rnd_rel_err [of x] by (simp add: abs_if field_simps split: if_splits)

lemma rnd_pos: "0 < x \<Longrightarrow> 0 < rnd x"
  using rnd_rel_err [of x] by (simp add: abs_if field_simps split: if_splits)

lemma rnd_upper: "0 \<le> x \<Longrightarrow> rnd x \<le> x * (1 + 1 / 2 ^ 53)"
  using rnd_rel_err [of x] by (simp add: abs_if field_simps split: if_splits)

lemma rnd_lower: "0 \<le> x \<Longrightarrow> x * (1 - 1 / 2 ^ 53) \<le> rnd x"
  using rnd_rel_err [of x] by (simp add: abs_if field_simps split: if_splits)

lemma rnd_abs_le: "\<bar>rnd x\<bar> \<le> 2 * \<bar>x\<bar>"
  using rnd_rel_err [of x] by (simp add: abs_if field_simps split: if_splits)

section \<open>Properties of the channel-shift filter\<close>

lemma length_roll_list [simp]: "length (roll_list xs k) = length xs"
  by (auto simp: roll_list_def Let_def)

lemma roll_list_nth:
  assumes "i < length xs"
  shows "roll_list xs k ! nat ((int i + k) mod int (length xs)) = xs ! i"
proof -
  let ?n = "length xs"
  let ?o = "nat (k mod int ?n)"
  from assms have n: "0 < ?n" by auto
  have o_lt: "?o < ?n" using n by (simp add: nat_less_iff)
  have o_int: "int ?o = k mod int ?n" using n by simp
  have tgt: "nat ((int i + k) mod int ?n) = (i + ?o) mod ?n"
  proof -
    have "(int i + k) mod int ?n = (int i + k mod int ?n) mod int ?n"
      by (simp add: mod_add_right_eq)
    also have "\<dots> = int ((i + ?o) mod ?n)"
      using o_int by (simp add: zmod_int)
    finally show ?thesis by simp
  qed
  show ?thesis
  proof (cases "?o = 0")
    case True
    with assms n show ?thesis
      unfolding tgt by (simp add: roll_list_def Let_def)
  next
    case False
    have roll: "roll_list xs k = rotate (?n - ?o) xs"
      using False n o_lt by (simp add: roll_list_def Let_def rotate_drop_take)
    have lt: "(i + ?o) mod ?n < ?n" using n by simp
    have "(?n - ?o + (i + ?o) mod ?n) mod ?n = (?n - ?o + (i + ?o)) mod ?n"
      by (simp add: mod_add_right_eq)
    also have "?n - ?o + (i + ?o) = i + ?n" using o_lt by simp
    also have "(i + ?n) mod ?n = i" using assms by simp
    finally have idx: "(?n - ?o + (i + ?o) mod ?n) mod ?n = i" .
    show ?thesis
      unfolding tgt roll using lt idx by (simp add: nth_rotate)
  qed
qed

lemma np_array_nth:
  "y < height img \<Longrightarrow> x < width img \<Longrightarrow> elems (np_array img) ! y ! x = pix img x y"
  by (simp add: np_array_def)

lemma plane_nth:
  "y < height img \<Longrightarrow> x < width img \<Longrightarrow> elems (plane f (np_array img)) ! y ! x = f (pix img x y)"
  by (simp add: plane_def np_array_def)

lemma length_plane [simp]: "length (elems (plane f (np_array img))) = height img"
  by (simp add: plane_def np_array_def)

lemma length_plane_row [simp]:
  "y < height img \<Longrightarrow> length (elems (plane f (np_array img)) ! y) = width img"
  by (simp add: plane_def np_array_def)

text \<open>
  C1 (amended). The green plane is rolled along the rows by \<open>(- shift_amount) div 2\<close>, the
  negated amount halved with rounding toward minus infinity: the green value of input
  row \<open>y\<close> is found in row \<open>(y + (- shift_amount) div 2) mod height\<close> of the shifted
  plane, in the same column.
\<close>

theorem green_shift_floor:
  assumes "y < height img" and "x < width img"
  shows "elems (shifted_green img shift_amount)
           ! nat ((int y + (- shift_amount) div 2) mod int (height img)) ! x
         = green (pix img x y)"
proof -
  let ?g = "elems (plane green (np_array img))"
  have "roll_list ?g ((- shift_amount) div 2)
          ! nat ((int y + (- shift_amount) div 2) mod int (length ?g)) = ?g ! y"
    using assms(1) by (intro roll_list_nth) simp
  then show ?thesis
    using assms by (simp add: shifted_green_def np_roll_def plane_nth)
qed

text \<open>
  C1, as stated, fails: for \<open>shift_amount = 5\<close> the green plane of the four-pixel column
  is rolled by \<open>-3\<close> rows, not by the \<open>-2\<close> rows that halving toward zero gives.
\<close>

theorem green_shift_trunc_counterexample:
  "elems (shifted_green column4 5) = [[3], [0], [1], [2]] \<and>
   elems (np_roll (plane green (np_array column4)) (spec_green_shift 5) 0)
     = [[2], [3], [0], [1]]"
  by (simp add: shifted_green_def np_roll_def plane_def np_array_def column4_def roll_list_def
      spec_green_shift_def green_def upt_rec)

theorem green_shift_floor_witness:
  "0 < height column4 \<and> 0 < width column4 \<and>
   elems (shifted_green column4 5) ! nat ((int 0 + (- 5) div 2) mod int (height column4)) ! 0
     = green (pix column4 0 0)"
  using green_shift_floor [of 0 column4 0 5] by (simp add: column4_def)

lemma set_roll_list [simp]: "set (roll_list xs k) = set xs"
proof -
  have "set (drop n xs) \<union> set (take n xs) = set xs" for n
    by (metis Un_commute append_take_drop_id set_append)
  then show ?thesis by (simp add: roll_list_def Let_def)
qed

lemma roll_list_0 [simp]: "roll_list xs 0 = xs"
  by (simp add: roll_list_def)

lemma plane_row_in_set:
  "r \<in> set (elems (plane f (np_array img))) \<Longrightarrow> length r = width img"
  by (auto simp: plane_def np_array_def)

lemma shifted_red_length [simp]: "length (elems (shifted_red img s)) = height img"
  by (simp add: shifted_red_def np_roll_def)

lemma shifted_red_row_length [simp]:
  "y < height img \<Longrightarrow> length (elems (shifted_red img s) ! y) = width img"
  by (simp add: shifted_red_def np_roll_def)

lemma shifted_green_length [simp]: "length (elems (shifted_green img s)) = height img"
  by (simp add: shifted_green_def np_roll_def)

lemma shifted_green_row_length [simp]:
  assumes "y < height img"
  shows "length (elems (shifted_green img s) ! y) = width img"
proof -
  let ?g = "elems (plane green (np_array img))"
  have "roll_list ?g ((- s) div 2) ! y \<in> set (roll_list ?g ((- s) div 2))"
    using assms by (intro nth_mem) simp
  then have "roll_list ?g ((- s) div 2) ! y \<in> set ?g" by simp
  then show ?thesis by (simp add: shifted_green_def np_roll_def plane_row_in_set)
qed

lemma glitch_size:
  "width (apply_refined_glitch_effect img s i) = width img \<and>
   height (apply_refined_glitch_effect img s i) = height img"
  by (simp add: apply_refined_glitch_effect_def Let_def fromarray_def np_stack_def
      blend_planes_def plane_def np_array_def)

lemma glitch_pix:
  assumes "x < width img" and "y < height img"
  shows "pix (apply_refined_glitch_effect img s i) x y =
           (blend i (elems (shifted_red img s) ! y ! x) (red (pix img x y)),
            blend i (elems (shifted_green img s) ! y ! x) (green (pix img x y)),
            blue (pix img x y))"
  using assms
  by (simp add: apply_refined_glitch_effect_def Let_def fromarray_def np_stack_def
      blend_planes_def plane_nth)

text \<open>
  C7. The filter leaves the blue value of every pixel of the image unchanged, whatever
  the shift amount and the intensity.
\<close>

theorem glitch_blue_unchanged:
  assumes "x < width img" and "y < height img"
  shows "blue (pix (apply_refined_glitch_effect img shift_amount intensity) x y)
           = blue (pix img x y)"
  using assms by (simp add: glitch_pix blue_def)

theorem glitch_blue_unchanged_witness:
  "0 < width column4 \<and> 3 < height column4 \<and>
   blue (pix (apply_refined_glitch_effect column4 5 (4 / 5)) 0 3) = blue (pix column4 0 3)"
  using glitch_blue_unchanged [of 0 column4 3 5 "4 / 5"] by (simp add: column4_def)

lemma shifted_red_0: "shifted_red img 0 = plane red (np_array img)"
  by (simp add: shifted_red_def np_roll_def plane_def np_array_def)

lemma shifted_green_0: "shifted_green img 0 = plane green (np_array img)"
  by (simp add: shifted_green_def np_roll_def plane_def np_array_def)

lemma blend_value_near:
  assumes i: "0 \<le> i" "i \<le> 1"
  shows "exact_blend i s t * (1 - 1 / 2 ^ 53) ^ 3 \<le> blend_value i s t \<and>
         blend_value i s t \<le> exact_blend i s t * (1 + 1 / 2 ^ 53) ^ 3"
proof -
  define c :: real where "c = 1 + 1 / 2 ^ 53"
  define d :: real where "d = 1 - 1 / 2 ^ 53"
  define S where "S = real (unat s)"
  define T where "T = real (unat t)"
  define A where "A = rnd (i * S)"
  define w where "w = rnd (1 - i)"
  define B where "B = rnd (w * T)"
  have c1: "1 \<le> c" and d0: "0 \<le> d" and d1: "d \<le> 1" by (simp_all add: c_def d_def)
  have c0: "0 \<le> c" using c1 by simp
  have S0: "0 \<le> S" and T0: "0 \<le> T" by (simp_all only: S_def T_def of_nat_0_le_iff)
  have iS0: "0 \<le> i * S" using i S0 by simp
  have iT0: "0 \<le> (1 - i) * T" using i T0 by simp
  have A0: "0 \<le> A" unfolding A_def by (rule rnd_nonneg [OF iS0])
  have w0: "0 \<le> w" unfolding w_def using i by (intro rnd_nonneg) simp
  have wT0: "0 \<le> w * T" using w0 T0 by simp
  have B0: "0 \<le> B" unfolding B_def by (rule rnd_nonneg [OF wT0])
  have E: "exact_blend i s t = i * S + (1 - i) * T"
    by (simp only: exact_blend_def S_def T_def)
  have v: "blend_value i s t = rnd (A + B)"
    by (simp only: blend_value_def fl_add_def fl_mul_def fl_sub_def A_def B_def w_def S_def T_def)
  \<comment> \<open>upper bounds\<close>
  have "A \<le> (i * S) * c" unfolding A_def c_def by (rule rnd_upper [OF iS0])
  also have "\<dots> \<le> (i * S) * (c * c)"
    using iS0 c1 c0 by (intro mult_left_mono) (simp_all add: mult_le_cancel_left1)
  finally have Ahi: "A \<le> i * S * (c * c)" .
  have whi: "w \<le> (1 - i) * c" unfolding w_def c_def using i by (intro rnd_upper) simp
  have "B \<le> (w * T) * c" unfolding B_def c_def by (rule rnd_upper [OF wT0])
  also have "\<dots> \<le> (((1 - i) * c) * T) * c"
    using whi T0 c0 by (intro mult_right_mono)
  finally have Bhi: "B \<le> (1 - i) * T * (c * c)" by (simp add: mult_ac)
  have "A + B \<le> i * S * (c * c) + (1 - i) * T * (c * c)" using Ahi Bhi by simp
  also have "\<dots> = (i * S + (1 - i) * T) * (c * c)" by (simp add: algebra_simps)
  finally have ABhi: "A + B \<le> (i * S + (1 - i) * T) * (c * c)" .
  have "rnd (A + B) \<le> (A + B) * c" unfolding c_def using A0 B0 by (intro rnd_upper) simp
  also have "\<dots> \<le> ((i * S + (1 - i) * T) * (c * c)) * c"
    using ABhi c0 by (intro mult_right_mono)
  finally have up: "rnd (A + B) \<le> (i * S + (1 - i) * T) * c ^ 3"
    by (simp add: power3_eq_cube mult_ac)
  \<comment> \<open>lower bounds\<close>
  have "(i * S) * (d * d) \<le> (i * S) * d"
    using iS0 d0 d1 by (intro mult_left_mono) (simp_all add: mult_le_cancel_left2)
  also have "\<dots> \<le> A" unfolding A_def d_def by (rule rnd_lower [OF iS0])
  finally have Alo: "i * S * (d * d) \<le> A" .
  have wlo: "(1 - i) * d \<le> w" unfolding w_def d_def using i by (intro rnd_lower) simp
  have "(((1 - i) * d) * T) * d \<le> (w * T) * d"
    using wlo T0 d0 by (intro mult_right_mono)
  also have "\<dots> \<le> B" unfolding B_def d_def by (rule rnd_lower [OF wT0])
  finally have Blo: "(1 - i) * T * (d * d) \<le> B" by (simp add: mult_ac)
  have "(i * S + (1 - i) * T) * (d * d) = i * S * (d * d) + (1 - i) * T * (d * d)"
    by (simp add: algebra_simps)
  also have "\<dots> \<le> A + B" using Alo Blo by simp
  finally have ABlo: "(i * S + (1 - i) * T) * (d * d) \<le> A + B" .
  have "((i * S + (1 - i) * T) * (d * d)) * d \<le> (A + B) * d"
    using ABlo d0 by (intro mult_right_mono)
  also have "\<dots> \<le> rnd (A + B)" unfolding d_def using A0 B0 by (intro rnd_lower) simp
  finally have low: "(i * S + (1 - i) * T) * d ^ 3 \<le> rnd (A + B)"
    by (simp add: power3_eq_cube mult_ac)
  from up low show ?thesis unfolding v E c_def d_def by simp
qed

lemma cube_up: "(1 + 1 / 2 ^ 53 :: real) ^ 3 \<le> 1 + 1 / 2 ^ 51"
  by (simp add: power3_eq_cube field_simps)

lemma cube_down: "(1 - 1 / 2 ^ 51 :: real) \<le> (1 - 1 / 2 ^ 53) ^ 3"
  by (simp add: power3_eq_cube field_simps)

lemma unat_u8_le: "real (unat (c :: u8)) \<le> 255"
proof -
  have "unat c < 2 ^ LENGTH(8)" by (rule unsigned_less)
  then have "unat c \<le> 255" by simp
  then have "real (unat c) \<le> real 255" by (simp only: of_nat_le_iff)
  then show ?thesis by (simp del: of_nat_unat)
qed

lemma exact_blend_range:
  assumes "0 \<le> i" "i \<le> 1"
  shows "0 \<le> exact_blend i s t \<and> exact_blend i s t \<le> 255"
proof -
  have S: "0 \<le> real (unat s)" "real (unat s) \<le> 255"
    and T: "0 \<le> real (unat t)" "real (unat t) \<le> 255"
    by (simp_all only: of_nat_0_le_iff unat_u8_le)
  have "i * real (unat s) \<le> i * 255" "(1 - i) * real (unat t) \<le> (1 - i) * 255"
    using assms S T by (simp_all only: mult_left_mono diff_ge_0_iff_ge)
  moreover have "0 \<le> i * real (unat s)" "0 \<le> (1 - i) * real (unat t)"
    using assms S T by (simp_all only: mult_nonneg_nonneg diff_ge_0_iff_ge)
  ultimately show ?thesis unfolding exact_blend_def by (simp add: algebra_simps)
qed

lemma blend_value_error:
  assumes "0 \<le> i" "i \<le> 1"
  shows "\<bar>blend_value i s t - exact_blend i s t\<bar> \<le> 1 / 2 ^ 43"
proof -
  define E where "E = exact_blend i s t"
  have E0: "0 \<le> E" and E255: "E \<le> 255"
    using exact_blend_range [OF assms, of s t] by (simp_all add: E_def)
  from blend_value_near [OF assms, of s t]
  have lo: "E * (1 - 1 / 2 ^ 53) ^ 3 \<le> blend_value i s t"
    and up: "blend_value i s t \<le> E * (1 + 1 / 2 ^ 53) ^ 3" by (simp_all add: E_def)
  have "E * (1 + 1 / 2 ^ 53) ^ 3 \<le> E * (1 + 1 / 2 ^ 51)"
    using cube_up E0 by (intro mult_left_mono)
  then have up': "blend_value i s t - E \<le> E / 2 ^ 51" using up by (simp add: algebra_simps)
  have "E * (1 - 1 / 2 ^ 51) \<le> E * (1 - 1 / 2 ^ 53) ^ 3"
    using cube_down E0 by (intro mult_left_mono)
  then have lo': "- (E / 2 ^ 51) \<le> blend_value i s t - E" using lo by (simp add: algebra_simps)
  have "E / 2 ^ 51 \<le> 255 / 2 ^ 51" using E255 by (simp add: divide_right_mono)
  also have "\<dots> \<le> 1 / 2 ^ 43" by simp
  finally have "E / 2 ^ 51 \<le> 1 / 2 ^ 43" .
  with up' lo' show ?thesis unfolding E_def [symmetric] by linarith
qed

lemma blend_value_range:
  assumes "0 \<le> i" "i \<le> 1"
  shows "0 \<le> blend_value i s t \<and> blend_value i s t < 256"
proof -
  have "0 \<le> exact_blend i s t * (1 - 1 / 2 ^ 53) ^ 3"
    using exact_blend_range [OF assms, of s t] by (intro mult_nonneg_nonneg) simp_all
  then have "0 \<le> blend_value i s t" using blend_value_near [OF assms, of s t] by linarith
  moreover have "(1::real) / 2 ^ 43 < 1" by simp
  then have "blend_value i s t < 256"
    using blend_value_error [OF assms, of s t] exact_blend_range [OF assms, of s t]
    by linarith
  ultimately show ?thesis by simp
qed

lemma unat_astype_uint8:
  assumes "0 \<le> v" and "v < 256"
  shows "int (unat (astype_uint8 v)) = \<lfloor>v\<rfloor>"
proof -
  have f0: "0 \<le> \<lfloor>v\<rfloor>" using assms by simp
  have f1: "\<lfloor>v\<rfloor> < 256" using assms by (simp add: floor_less_iff)
  have "uint (word_of_int \<lfloor>v\<rfloor> :: u8) = \<lfloor>v\<rfloor>"
    using f0 f1 by (simp add: uint_word_of_int take_bit_eq_mod)
  then show ?thesis using assms by (simp add: astype_uint8_def trunc_def)
qed

lemma unat_blend:
  assumes "0 \<le> i" "i \<le> 1"
  shows "int (unat (blend i s t)) = \<lfloor>blend_value i s t\<rfloor>"
  using blend_value_range [OF assms, of s t] by (simp only: blend_def unat_astype_uint8)

lemma exact_blend_same: "exact_blend i s s = real (unat s)"
  by (simp add: exact_blend_def algebra_simps del: of_nat_unat)

lemma unat_blend_same:
  assumes "0 \<le> i" "i \<le> 1"
  shows "int (unat s) - 1 \<le> int (unat (blend i s s)) \<and> int (unat (blend i s s)) \<le> int (unat s)"
proof -
  have err: "\<bar>blend_value i s s - real (unat s)\<bar> \<le> 1 / 2 ^ 43"
    using blend_value_error [OF assms, of s s] by (simp only: exact_blend_same)
  have "real (unat s) = of_int (int (unat s))" by simp
  then obtain k :: int where k: "real (unat s) = of_int k" "k = int (unat s)" by blast
  have "(1::real) / 2 ^ 43 < 1" by simp
  then have "of_int k - 1 \<le> blend_value i s s" "blend_value i s s < of_int k + 1"
    using err unfolding k(1) by linarith+
  then have "of_int (k - 1) \<le> blend_value i s s" "blend_value i s s < of_int (k + 1)"
    by simp_all
  then have "k - 1 \<le> \<lfloor>blend_value i s s\<rfloor>" "\<lfloor>blend_value i s s\<rfloor> < k + 1"
    by (simp_all only: le_floor_iff floor_less_iff)
  then show ?thesis unfolding unat_blend [OF assms] k(2) by simp
qed

lemma rnd_eqI:
  assumes "2 powi e \<le> \<bar>x\<bar>" and "\<bar>x\<bar> < 2 powi (e + 1)"
  shows "rnd x = of_int (round_half_even (x / 2 powi (e - 52))) * 2 powi (e - 52)"
proof -
  have "ilog2 \<bar>x\<bar> = e" using assms by (rule ilog2_eqI)
  moreover have "x \<noteq> 0" using assms(1) by (smt (verit) zero_less_power_int abs_zero)
  ultimately show ?thesis by (simp add: rnd_def Let_def)
qed

lemma rnd_three_quarters: "rnd (3 / 4) = 3 / 4"
  using rnd_exact [of 3 "- 2"] by simp

lemma rnd_quarter: "rnd (1 / 4) = 1 / 4"
  using rnd_exact [of 1 "- 2"] by simp

lemma blend_value_three_quarters: "blend_value (3 / 4) 1 0 = 3 / 4"
  by (simp add: blend_value_def fl_add_def fl_mul_def fl_sub_def rnd_three_quarters rnd_quarter)

text \<open>
  C3 (amended). For an intensity in \<open>[0, 1]\<close>, each output red and green value is the
  float blend \<open>intensity * shifted + (1 - intensity) * original\<close> with its fraction
  dropped (rounded down, not to the nearest integer); the float blend lies within
  \<open>2 ^ -43\<close> of the exact one, hence inside \<open>[0, 256)\<close>, so nothing is saturated.
\<close>

theorem glitch_blend_truncates:
  assumes "x < width img" and "y < height img" and "0 \<le> intensity" and "intensity \<le> 1"
  shows "(let out = pix (apply_refined_glitch_effect img shift_amount intensity) x y;
              sr = elems (shifted_red img shift_amount) ! y ! x;
              sg = elems (shifted_green img shift_amount) ! y ! x;
              r = red (pix img x y);
              g = green (pix img x y)
          in int (unat (red out)) = \<lfloor>blend_value intensity sr r\<rfloor> \<and>
             \<bar>blend_value intensity sr r - exact_blend intensity sr r\<bar> \<le> 1 / 2 ^ 43 \<and>
             int (unat (green out)) = \<lfloor>blend_value intensity sg g\<rfloor> \<and>
             \<bar>blend_value intensity sg g - exact_blend intensity sg g\<bar> \<le> 1 / 2 ^ 43)"
  unfolding Let_def glitch_pix [OF assms(1,2)] red_def green_def fst_conv snd_conv
  using unat_blend [OF assms(3,4)] blend_value_error [OF assms(3,4)] by blast

theorem glitch_blend_truncates_witness:
  "0 < width pair_row \<and> 0 < height pair_row \<and> (0::real) \<le> 3 / 4 \<and> (3::real) / 4 \<le> 1 \<and>
   int (unat (red (pix (apply_refined_glitch_effect pair_row 1 (3 / 4)) 0 0)))
     = \<lfloor>blend_value (3 / 4) (elems (shifted_red pair_row 1) ! 0 ! 0) (red (pix pair_row 0 0))\<rfloor>"
proof -
  have h: "0 < width pair_row" "0 < height pair_row" "(0::real) \<le> 3 / 4" "(3::real) / 4 \<le> 1"
    by (simp_all add: pair_row_def)
  from glitch_blend_truncates [OF h, of 1] h show ?thesis
    unfolding Let_def by blast
qed

text \<open>
  C3, as stated, fails: with intensity \<open>3/4\<close>, shifted value 1 and original value 0 the
  blend is \<open>0.75\<close>; the filter stores 0 where rounding to nearest gives 1.
\<close>

theorem glitch_blend_round_counterexample:
  "int (unat (red (pix (apply_refined_glitch_effect pair_row 1 (3 / 4)) 0 0))) = 0 \<and>
   spec_blend (3 / 4) (elems (shifted_red pair_row 1) ! 0 ! 0) (red (pix pair_row 0 0)) = 1"
proof -
  have sr: "elems (shifted_red pair_row 1) ! 0 ! 0 = 1"
    by (simp add: shifted_red_def np_roll_def plane_def np_array_def pair_row_def roll_list_def
        red_def upt_rec)
  have r: "red (pix pair_row 0 0) = 0" by (simp add: pair_row_def red_def)
  have "pix (apply_refined_glitch_effect pair_row 1 (3 / 4)) 0 0 =
          (blend (3 / 4) (elems (shifted_red pair_row 1) ! 0 ! 0) (red (pix pair_row 0 0)),
           blend (3 / 4) (elems (shifted_green pair_row 1) ! 0 ! 0) (green (pix pair_row 0 0)),
           blue (pix pair_row 0 0))"
    by (rule glitch_pix) (simp_all add: pair_row_def)
  then have "red (pix (apply_refined_glitch_effect pair_row 1 (3 / 4)) 0 0) = blend (3 / 4) 1 0"
    unfolding sr r by (simp add: red_def)
  also have "\<dots> = 0"
    by (simp add: blend_def blend_value_three_quarters astype_uint8_def trunc_def)
  finally have A: "int (unat (red (pix (apply_refined_glitch_effect pair_row 1 (3 / 4)) 0 0))) = 0"
    by simp
  have B: "spec_blend (3 / 4) (elems (shifted_red pair_row 1) ! 0 ! 0) (red (pix pair_row 0 0)) = 1"
    unfolding sr r by (simp add: spec_blend_def exact_blend_def round_def)
  from A B show ?thesis by simp
qed

lemma rnd_001_times_3: "rnd (intensity_001 * 3) = 8646911284551352 / 2 ^ 58"
  using rnd_eqI [of "-6" "intensity_001 * 3"]
  by (simp add: intensity_001_def round_half_even_def)

lemma rnd_one_minus_001: "rnd (1 - intensity_001) = 8917127262193582 / 2 ^ 53"
  using rnd_eqI [of "-1" "1 - intensity_001"]
  by (simp add: intensity_001_def round_half_even_def)

lemma rnd_099_times_3: "rnd (8917127262193582 / 2 ^ 53 * 3) = 6687845446645186 / 2 ^ 51"
  using rnd_eqI [of "1" "8917127262193582 / 2 ^ 53 * 3"]
  by (simp add: round_half_even_def)

lemma rnd_001_sum: "rnd (8646911284551352 / 2 ^ 58 + 6687845446645186 / 2 ^ 51) = 6755399441055743 / 2 ^ 51"
  using rnd_eqI [of "1" "8646911284551352 / 2 ^ 58 + 6687845446645186 / 2 ^ 51"]
  by (simp add: round_half_even_def)

lemma blend_value_001: "blend_value intensity_001 3 3 = 6755399441055743 / 2 ^ 51"
proof -
  have u3: "real (unat (3 :: u8)) = 3" by simp
  have "blend_value intensity_001 3 3
          = rnd (rnd (intensity_001 * 3) + rnd (rnd (1 - intensity_001) * 3))"
    unfolding blend_value_def fl_add_def fl_mul_def fl_sub_def u3 ..
  also have "\<dots> = 6755399441055743 / 2 ^ 51"
    by (simp only: rnd_001_times_3 rnd_one_minus_001 rnd_099_times_3 rnd_001_sum)
  finally show ?thesis .
qed

lemma blend_001: "blend intensity_001 3 3 = 2"
  by (simp add: blend_def blend_value_001 astype_uint8_def trunc_def)

text \<open>
  C5, as stated, fails: with \<open>shift_amount = 0\<close> and intensity \<^verbatim>\<open>0.01\<close> a red value 3
  comes out as 2, since the float blend \<^verbatim>\<open>0.01 * 3 + (1 - 0.01) * 3\<close> is
  \<open>3 - 2 ^ -51\<close>.
\<close>

theorem glitch_zero_shift_counterexample:
  "red (pix (apply_refined_glitch_effect single3 0 intensity_001) 0 0) = 2 \<and>
   red (pix single3 0 0) = 3 \<and> 0 \<le> intensity_001 \<and> intensity_001 \<le> 1"
proof -
  have "pix (apply_refined_glitch_effect single3 0 intensity_001) 0 0 =
          (blend intensity_001 (elems (shifted_red single3 0) ! 0 ! 0) (red (pix single3 0 0)),
           blend intensity_001 (elems (shifted_green single3 0) ! 0 ! 0) (green (pix single3 0 0)),
           blue (pix single3 0 0))"
    by (rule glitch_pix) (simp_all add: single3_def)
  moreover have sr: "elems (shifted_red single3 0) ! 0 ! 0 = 3"
    by (simp add: shifted_red_0 plane_def np_array_def single3_def red_def)
  moreover have r: "red (pix single3 0 0) = 3" by (simp add: single3_def red_def)
  ultimately have "red (pix (apply_refined_glitch_effect single3 0 intensity_001) 0 0)
      = blend intensity_001 3 3"
    by (simp add: red_def)
  moreover have "0 \<le> intensity_001 \<and> intensity_001 \<le> 1" by (simp add: intensity_001_def)
  ultimately show ?thesis using r by (simp add: blend_001)
qed

text \<open>
  C5 (amended). With \<open>shift_amount = 0\<close> and an intensity in \<open>[0, 1]\<close>, every pixel keeps
  its blue value, and its red and green values each come out as the input value or as
  that value minus one.
\<close>

theorem glitch_zero_shift_near_identity:
  assumes "x < width img" and "y < height img" and "0 \<le> intensity" and "intensity \<le> 1"
  shows "(let p = pix img x y;
              q = pix (apply_refined_glitch_effect img 0 intensity) x y
          in blue q = blue p \<and>
             int (unat (red p)) - 1 \<le> int (unat (red q)) \<and>
             int (unat (red q)) \<le> int (unat (red p)) \<and>
             int (unat (green p)) - 1 \<le> int (unat (green q)) \<and>
             int (unat (green q)) \<le> int (unat (green p)))"
proof -
  have sr: "elems (shifted_red img 0) ! y ! x = red (pix img x y)"
    using assms(1,2) by (simp add: shifted_red_0 plane_nth)
  have sg: "elems (shifted_green img 0) ! y ! x = green (pix img x y)"
    using assms(1,2) by (simp add: shifted_green_0 plane_nth)
  show ?thesis
    unfolding Let_def glitch_pix [OF assms(1,2)] sr sg
    using unat_blend_same [OF assms(3,4), of "red (pix img x y)"]
      unat_blend_same [OF assms(3,4), of "green (pix img x y)"]
    by (simp add: red_def green_def blue_def del: of_nat_unat)
qed

theorem glitch_zero_shift_near_identity_witness:
  "0 < width single3 \<and> 0 < height single3 \<and> 0 \<le> intensity_001 \<and> intensity_001 \<le> 1 \<and>
   int (unat (red (pix single3 0 0))) - 1
     \<le> int (unat (red (pix (apply_refined_glitch_effect single3 0 intensity_001) 0 0)))"
proof -
  have h: "0 < width single3" "0 < height single3" "0 \<le> intensity_001" "intensity_001 \<le> 1"
    by (simp_all add: single3_def intensity_001_def)
  from glitch_zero_shift_near_identity [OF h] h show ?thesis
    unfolding Let_def by blast
qed

section \<open>Properties of the subpixel renderer\<close>

lemma bind_err_Inr_iff: "bind_err m f = Inr v \<longleftrightarrow> (\<exists>u. m = Inr u \<and> f u = Inr v)"
  by (cases m) (simp_all add: bind_err_def)

lemma bind_err_Inr [simp]: "bind_err (Inr u) f = f u"
  by (simp add: bind_err_def)

lemma bind_err_Inl [simp]: "bind_err (Inl e) f = Inl e"
  by (simp add: bind_err_def)

lemma for_each_append:
  "for_each (xs @ ys) body s = bind_err (for_each xs body s) (for_each ys body)"
  by (induction xs arbitrary: s) (simp_all add: bind_err_def split: sum.splits)

lemma for_each_preserves:
  assumes "for_each xs body s = Inr s'" and "Q s"
    and "\<And>i t t'. i \<in> set xs \<Longrightarrow> body i t = Inr t' \<Longrightarrow> Q t \<Longrightarrow> Q t'"
  shows "Q s'"
  using assms
proof (induction xs arbitrary: s)
  case Nil
  then show ?case by simp
next
  case (Cons i rest)
  from Cons.prems(1) obtain t where t: "body i s = Inr t" "for_each rest body t = Inr s'"
    by (auto simp: bind_err_Inr_iff)
  have Qt: "Q t" using Cons.prems(3) [of i s t] t(1) Cons.prems(2) by simp
  show ?case
  proof (rule Cons.IH [OF t(2) Qt])
    fix j u u'
    assume "j \<in> set rest" and "body j u = Inr u'" and "Q u"
    then show "Q u'" using Cons.prems(3) [of j u u'] by simp
  qed
qed

lemma for_each_total:
  assumes "\<And>i t. i \<in> set xs \<Longrightarrow> \<exists>t'. body i t = Inr t'"
  shows "\<exists>s'. for_each xs body s = Inr s'"
  using assms
proof (induction xs arbitrary: s)
  case Nil
  then show ?case by simp
next
  case (Cons i rest)
  from Cons.prems [of i s] obtain t where "body i s = Inr t" by auto
  moreover from Cons.IH [of t] Cons.prems obtain s' where "for_each rest body t = Inr s'" by auto
  ultimately show ?case by simp
qed

lemma draw_rectangle_size [simp]:
  "width (draw_rectangle img box fill) = width img"
  "height (draw_rectangle img box fill) = height img"
  by (simp_all add: draw_rectangle_def split: prod.splits)


lemma draw_block_size [simp]:
  "width (draw_block lcd p orient x y c) = width lcd"
  "height (draw_block lcd p orient x y c) = height lcd"
  by (simp_all add: draw_block_def Let_def split: prod.splits)



lemma draw_block_other:
  "orient \<noteq> ''vertical'' \<Longrightarrow> orient \<noteq> ''horizontal'' \<Longrightarrow> draw_block lcd p orient x y c = lcd"
  by (simp add: draw_block_def Let_def split: prod.splits)





lemma lcd_step_Inr:
  "lcd_step small p boost orient y x s = Inr s' \<longleftrightarrow>
     (\<exists>c. boosted (pix small x y) boost = Inr c \<and> s' = draw_block s p orient x y c)"
  by (auto simp: lcd_step_def bind_err_Inr_iff)



lemma upt_split3: "k < n \<Longrightarrow> [0..<n] = [0..<k] @ k # [Suc k..<n]"
  by (metis le0 less_imp_le_nat upt_add_eq_append upt_conv_Cons le_add_diff_inverse)





lemma py_int_fl_mul:
  assumes "\<bar>boost\<bar> \<le> 2 ^ 1000"
  shows "py_int (fl_mul (real (unat (c :: u8))) boost) = Inr (trunc (fl_mul (real (unat c)) boost))"
proof -
  define C where "C = real (unat c)"
  have C: "0 \<le> C" "C \<le> 255" unfolding C_def by (simp_all only: of_nat_0_le_iff unat_u8_le)
  have "\<bar>C * boost\<bar> = C * \<bar>boost\<bar>" using C(1) by (simp add: abs_mult)
  also have "\<dots> \<le> 255 * 2 ^ 1000" using C assms by (intro mult_mono) simp_all
  finally have "\<bar>rnd (C * boost)\<bar> \<le> 2 * (255 * 2 ^ 1000)"
    using rnd_abs_le [of "C * boost"] by linarith
  also have "\<dots> < (2::real) ^ 1024" by simp
  finally have "\<not> 2 ^ 1024 \<le> \<bar>fl_mul C boost\<bar>" by (simp add: fl_mul_def)
  then show ?thesis unfolding C_def [symmetric] by (simp only: py_int_def if_False)
qed

lemma boost_channel_level:
  "\<bar>boost\<bar> \<le> 2 ^ 1000 \<Longrightarrow> boost_channel c boost = Inr (boost_level c boost)"
  by (simp only: boost_channel_def py_int_fl_mul bind_err_Inr boost_level_def)

lemma boosted_level:
  "\<bar>boost\<bar> \<le> 2 ^ 1000 \<Longrightarrow>
   boosted p boost = Inr (boost_level (red p) boost, boost_level (green p) boost,
                          boost_level (blue p) boost)"
  by (cases p) (simp add: boosted_def boost_channel_level red_def green_def blue_def)



lemma clip8_0 [simp]: "clip8 0 = 0"
  by (simp add: clip8_def)




lemma for_each_id:
  assumes "\<And>i t. i \<in> set xs \<Longrightarrow> body i t = Inr t"
  shows "for_each xs body s = Inr s"
  using assms by (induction xs) simp_all

lemma lcd_unfold:
  assumes "0 < p" and "image_resize box img (width img div p, height img div p) = Inr small"
  shows "apply_lcd_pixel_effect box img p boost orient =
           for_each [0..<height small]
             (\<lambda>y. for_each [0..<width small] (lcd_step small p boost orient y))
             (image_new (width small * p) (height small * p) black)"
  using assms by (simp add: apply_lcd_pixel_effect_def Let_def)

lemma image_resize_size:
  "image_resize box img sz = Inr small \<Longrightarrow> width small = fst sz \<and> height small = snd sz"
  by (cases sz) (auto simp: image_resize_def split: if_splits)

lemma image_resize_returns:
  "0 < fst sz \<Longrightarrow> 0 < snd sz \<Longrightarrow> \<exists>small. image_resize box img sz = Inr small"
  by (simp add: image_resize_def)

lemma image_resize_empty:
  "sz \<noteq> (width img, height img) \<Longrightarrow> fst sz = 0 \<or> snd sz = 0 \<Longrightarrow>
   image_resize box img sz = Inl ValueError"
  by (auto simp: image_resize_def)

lemma lcd_Inr_D:
  assumes "apply_lcd_pixel_effect box img p boost orient = Inr out"
  shows "0 < p \<and> image_resize box img (width img div p, height img div p)
                   = Inr (downsampled box img p)"
  using assms
  by (auto simp: apply_lcd_pixel_effect_def downsampled_def bind_err_Inr_iff split: if_splits)



lemma lcd_step_total:
  "\<bar>boost\<bar> \<le> 2 ^ 1000 \<Longrightarrow> \<exists>t'. lcd_step small p boost orient y x t = Inr t'"
  by (simp add: lcd_step_def boosted_level)

lemma lcd_returns:
  assumes "0 < p" and "p \<le> width img" and "p \<le> height img" and "\<bar>boost\<bar> \<le> 2 ^ 1000"
  shows "\<exists>out. apply_lcd_pixel_effect box img p boost orient = Inr out"
proof -
  have "0 < width img div p" "0 < height img div p"
    using assms(1-3) by (simp_all add: div_greater_zero_iff)
  then obtain small where
    small: "image_resize box img (width img div p, height img div p) = Inr small"
    using image_resize_returns [of "(width img div p, height img div p)" box img] by auto
  show ?thesis
    unfolding lcd_unfold [of p box img small boost orient, OF assms(1) small]
    by (intro for_each_total lcd_step_total assms(4))
qed



lemma lcd_row_other:
  assumes "for_each xs (lcd_step small p boost orient y) t = Inr t'"
    and "orient \<noteq> ''vertical''" and "orient \<noteq> ''horizontal''"
  shows "t' = t"
proof (rule for_each_preserves [OF assms(1), where Q = "\<lambda>u. u = t"])
  show "t = t" ..
next
  fix i u u'
  assume "lcd_step small p boost orient y i u = Inr u'" and "u = t"
  then show "u' = t" using assms(2,3) by (auto simp: lcd_step_Inr draw_block_other)
qed

lemma lcd_other_orientation:
  assumes "apply_lcd_pixel_effect box img p boost orient = Inr out"
    and "orient \<noteq> ''vertical''" and "orient \<noteq> ''horizontal''"
  shows "out = image_new ((width img div p) * p) ((height img div p) * p) black"
proof -
  let ?small = "downsampled box img p"
  from lcd_Inr_D [OF assms(1)] have p: "0 < p"
    and small: "image_resize box img (width img div p, height img div p) = Inr ?small"
    by simp_all
  from image_resize_size [OF small]
  have sz: "width ?small = width img div p" "height ?small = height img div p" by simp_all
  note run = assms(1) [unfolded lcd_unfold [of p box img ?small boost orient, OF p small]]
  have "out = image_new (width ?small * p) (height ?small * p) black"
  proof (rule for_each_preserves [OF run, where
        Q = "\<lambda>u. u = image_new (width ?small * p) (height ?small * p) black"])
    show "image_new (width ?small * p) (height ?small * p) black
            = image_new (width ?small * p) (height ?small * p) black" ..
  next
    fix i u u'
    assume "for_each [0..<width ?small] (lcd_step ?small p boost orient i) u = Inr u'"
      and "u = image_new (width ?small * p) (height ?small * p) black"
    then show "u' = image_new (width ?small * p) (height ?small * p) black"
      using lcd_row_other [OF _ assms(2,3)] by blast
  qed
  then show ?thesis by (simp only: sz)
qed

lemma lcd_small_image_raises:
  assumes "0 < p" and "0 < width img" and "width img < p"
  shows "apply_lcd_pixel_effect box img p boost orient = Inl ValueError"
proof -
  have "image_resize box img (width img div p, height img div p) = Inl ValueError"
    using assms by (intro image_resize_empty) auto
  then show ?thesis using assms(1) by (simp add: apply_lcd_pixel_effect_def)
qed

lemma boost_channel_overflow: "boost_channel 200 (2 ^ 1023) = Inl OverflowError"
proof -
  have u: "real (unat (200 :: u8)) = 200" by simp
  have "rnd (200 * 2 ^ 1023) = 200 * 2 ^ 1023"
    using rnd_exact [of 200 1023] by simp
  then have "fl_mul (real (unat (200 :: u8))) (2 ^ 1023) = 200 * 2 ^ 1023"
    by (simp only: fl_mul_def u)
  moreover have "(2::real) ^ 1024 \<le> \<bar>200 * 2 ^ 1023\<bar>" by simp
  ultimately have "py_int (fl_mul (real (unat (200 :: u8))) (2 ^ 1023)) = Inl OverflowError"
    by (simp only: py_int_def if_True)
  then show ?thesis by (simp only: boost_channel_def bind_err_Inl)
qed

lemma lcd_overflow_raises:
  "apply_lcd_pixel_effect box gray200 1 (2 ^ 1023) orient = Inl OverflowError"
proof -
  have small: "image_resize box gray200 (width gray200 div 1, height gray200 div 1) = Inr gray200"
    by (simp add: image_resize_def)
  have b: "boosted (200, 200, 200) (2 ^ 1023) = Inl OverflowError"
    by (simp only: boosted_def prod.case boost_channel_overflow bind_err_Inl)
  have px: "pix gray200 0 0 = (200, 200, 200)" by (simp add: gray200_def)
  have step: "lcd_step gray200 1 (2 ^ 1023) orient 0 0 t = Inl OverflowError" for t
    by (simp only: lcd_step_def px b bind_err_Inl)
  have wh: "width gray200 = 1" "height gray200 = 1" by (simp_all add: gray200_def)
  have one: "[0..<1] = [0::nat]" by simp
  show ?thesis
    unfolding lcd_unfold [of 1 box gray200 gray200 "2 ^ 1023" orient, OF zero_less_one small]
      wh one for_each.simps step bind_err_Inl ..
qed










text \<open>
  C10, as stated, fails on inputs for which no image is returned, whatever the
  orientation: the resize raises \<^verbatim>\<open>ValueError\<close> for a 2 by 2 image and block size 3, and
  the boost, computed before the orientation is looked at, raises \<^verbatim>\<open>OverflowError\<close> for
  a source value 200 and the multiplier \<open>2 ^ 1023\<close>.
\<close>

theorem lcd_unknown_orientation_counterexample:
  "apply_lcd_pixel_effect block_sample small2x2 3 (3 / 2) ''diagonal'' = Inl ValueError \<and>
   apply_lcd_pixel_effect block_sample gray200 1 (2 ^ 1023) ''diagonal'' = Inl OverflowError"
  using lcd_small_image_raises [of 3 small2x2 block_sample "3 / 2" "''diagonal''"]
    lcd_overflow_raises [of block_sample "''diagonal''"]
  by (simp add: small2x2_def)

text \<open>
  C10 (amended). With a positive block size \<open>b\<close> and an orientation other than
  \<^verbatim>\<open>vertical\<close> and \<^verbatim>\<open>horizontal\<close> nothing is drawn: every image the renderer returns has
  the size \<open>(w div b) * b\<close> by \<open>(h div b) * b\<close> and every pixel of it is \<open>(0, 0, 0)\<close>; and it
  returns one whenever the input is at least \<open>b\<close> wide and high and the brightness
  multiplier is at most \<open>2 ^ 1000\<close> in magnitude.
\<close>

theorem lcd_unknown_orientation_black:
  assumes "orientation \<noteq> ''vertical''" and "orientation \<noteq> ''horizontal''"
    and "0 < pixel_size"
  shows "(pixel_size \<le> width img \<and> pixel_size \<le> height img \<and> \<bar>brightness_boost\<bar> \<le> 2 ^ 1000 \<longrightarrow>
            (\<exists>out. apply_lcd_pixel_effect box img pixel_size brightness_boost orientation = Inr out)) \<and>
         (\<forall>out. apply_lcd_pixel_effect box img pixel_size brightness_boost orientation = Inr out \<longrightarrow>
            width out = (width img div pixel_size) * pixel_size \<and>
            height out = (height img div pixel_size) * pixel_size \<and>
            (\<forall>X Y. pix out X Y = (0, 0, 0)))"
proof (intro conjI impI allI)
  assume "pixel_size \<le> width img \<and> pixel_size \<le> height img \<and> \<bar>brightness_boost\<bar> \<le> 2 ^ 1000"
  then show "\<exists>out. apply_lcd_pixel_effect box img pixel_size brightness_boost orientation = Inr out"
    using assms(3) by (intro lcd_returns) simp_all
next
  fix out X Y
  assume out: "apply_lcd_pixel_effect box img pixel_size brightness_boost orientation = Inr out"
  note eq = lcd_other_orientation [OF out assms(1,2)]
  show "width out = (width img div pixel_size) * pixel_size"
    and "height out = (height img div pixel_size) * pixel_size"
    and "pix out X Y = (0, 0, 0)"
    by (simp_all add: eq image_new_def black_def)
qed

theorem lcd_unknown_orientation_black_witness:
  "''diagonal'' \<noteq> ''vertical'' \<and> ''diagonal'' \<noteq> ''horizontal'' \<and> 0 < (3::nat) \<and>
   3 \<le> width blocks6x3 \<and> 3 \<le> height blocks6x3 \<and> \<bar>3 / 2 :: real\<bar> \<le> 2 ^ 1000 \<and>
   (\<exists>out. apply_lcd_pixel_effect block_sample blocks6x3 3 (3 / 2) ''diagonal'' = Inr out \<and>
      width out = 6 \<and> height out = 3 \<and> pix out 4 2 = (0, 0, 0))"
proof -
  have o: "''diagonal'' \<noteq> ''vertical''" "''diagonal'' \<noteq> ''horizontal''" by simp_all
  have h: "0 < (3::nat)" "3 \<le> width blocks6x3" "3 \<le> height blocks6x3"
    "\<bar>3 / 2 :: real\<bar> \<le> 2 ^ 1000"
    by (simp_all add: blocks6x3_def)
  from lcd_unknown_orientation_black [OF o h(1), of blocks6x3 "3 / 2" block_sample] h(2-4)
  have "\<exists>out. apply_lcd_pixel_effect block_sample blocks6x3 3 (3 / 2) ''diagonal'' = Inr out \<and>
      width out = (width blocks6x3 div 3) * 3 \<and> height out = (height blocks6x3 div 3) * 3 \<and>
      pix out 4 2 = (0, 0, 0)"
    by blast
  then have "\<exists>out. apply_lcd_pixel_effect block_sample blocks6x3 3 (3 / 2) ''diagonal'' = Inr out \<and>
      width out = 6 \<and> height out = 3 \<and> pix out 4 2 = (0, 0, 0)"
    by (simp add: blocks6x3_def)
  with o h show ?thesis by blast
qed

section \<open>Properties of the radial warp filter\<close>

lemma for_each_error:
  assumes "for_each xs body s = Inl e"
  shows "\<exists>i \<in> set xs. \<exists>t. body i t = Inl e"
  using assms
proof (induction xs arbitrary: s)
  case Nil
  then show ?case by simp
next
  case (Cons i rest)
  show ?case
  proof (cases "body i s")
    case (Inl e')
    with Cons.prems show ?thesis by auto
  next
    case (Inr t)
    with Cons.prems have "for_each rest body t = Inl e" by simp
    from Cons.IH [OF this] show ?thesis by auto
  qed
qed

lemma neighbour_bounds:
  "0 \<le> c \<Longrightarrow> c < int n \<Longrightarrow> 0 \<le> neighbour c n \<and> neighbour c n < int n"
  by (auto simp: neighbour_def)

lemma load_get_in_bounds:
  "0 \<le> x \<Longrightarrow> x < int (width img) \<Longrightarrow> 0 \<le> y \<Longrightarrow> y < int (height img) \<Longrightarrow>
   load_get img x y = Inr (pix img (nat x) (nat y))"
  by (simp add: load_get_def)

lemma py_int_not_IndexError: "py_int v \<noteq> Inl IndexError"
  by (simp add: py_int_def)

lemma interpolate_in_bounds:
  assumes "0 \<le> x0" "x0 < int (width img)" "0 \<le> y0" "y0 < int (height img)"
  shows "interpolate img a b x0 y0 (neighbour x0 (width img)) (neighbour y0 (height img)) i =
     py_int
       (fl_add
         (fl_add
           (fl_add
             (fl_mul (fl_mul (fl_sub 1 a) (fl_sub 1 b))
                (real (unat (chan (pix img (nat x0) (nat y0)) i))))
             (fl_mul (fl_mul a (fl_sub 1 b))
                (real (unat (chan (pix img (nat (neighbour x0 (width img))) (nat y0)) i)))))
           (fl_mul (fl_mul (fl_sub 1 a) b)
              (real (unat (chan (pix img (nat x0) (nat (neighbour y0 (height img)))) i)))))
         (fl_mul (fl_mul a b)
            (real (unat (chan (pix img (nat (neighbour x0 (width img)))
                                        (nat (neighbour y0 (height img)))) i)))))"
  using assms neighbour_bounds [of x0 "width img"] neighbour_bounds [of y0 "height img"]
  by (simp add: interpolate_def load_get_in_bounds del: of_nat_unat)

lemma interpolate_not_IndexError:
  assumes "0 \<le> x0" "x0 < int (width img)" "0 \<le> y0" "y0 < int (height img)"
  shows "interpolate img a b x0 y0 (neighbour x0 (width img)) (neighbour y0 (height img)) i
           \<noteq> Inl IndexError"
  unfolding interpolate_in_bounds [OF assms] by (rule py_int_not_IndexError)

lemma bind_err_not:
  assumes "m \<noteq> Inl e" and "\<And>v. m = Inr v \<Longrightarrow> f v \<noteq> Inl e"
  shows "bind_err m f \<noteq> Inl e"
  using assms by (cases m) simp_all

lemma fl_div_not_IndexError: "fl_div a b \<noteq> Inl IndexError"
  by (simp add: fl_div_def)

lemma warp_source_not_IndexError: "warp_source img strength x y \<noteq> Inl IndexError"
  unfolding warp_source_def Let_def
  by (intro bind_err_not fl_div_not_IndexError) simp_all

lemma warp_pixel_not_IndexError: "warp_pixel img strength x y \<noteq> Inl IndexError"
  unfolding warp_pixel_def Let_def
proof (intro bind_err_not warp_source_not_IndexError, goal_cases)
  case (1 v)
  obtain src_x src_y where v: "v = (src_x, src_y)" by (cases v) auto
  show ?case unfolding v prod.case
  proof (intro bind_err_not py_int_not_IndexError, goal_cases)
    case (1 x0 y0)
    show ?case
    proof (cases "0 \<le> x0 \<and> x0 < int (width img) \<and> 0 \<le> y0 \<and> y0 < int (height img)")
      case True
      then have c: "0 \<le> x0" "x0 < int (width img)" "0 \<le> y0" "y0 < int (height img)"
        by simp_all
      have "bind_err
              (interpolate img (fl_sub src_x (py_float x0)) (fl_sub src_y (py_float y0)) x0 y0
                 (neighbour x0 (width img)) (neighbour y0 (height img)) 0)
              (\<lambda>r. bind_err
                 (interpolate img (fl_sub src_x (py_float x0)) (fl_sub src_y (py_float y0)) x0 y0
                    (neighbour x0 (width img)) (neighbour y0 (height img)) 1)
                 (\<lambda>g. bind_err
                    (interpolate img (fl_sub src_x (py_float x0)) (fl_sub src_y (py_float y0))
                       x0 y0 (neighbour x0 (width img)) (neighbour y0 (height img)) 2)
                    (\<lambda>b'. Inr (Some (ink (r, g, b')))))) \<noteq> Inl IndexError"
        by (intro bind_err_not interpolate_not_IndexError c) simp_all
      then show ?thesis by (simp only: c simp_thms if_True)
    next
      case False
      then show ?thesis by (simp only: if_False sum.simps not_False_eq_True)
    qed
  qed
qed

lemma warp_not_IndexError: "apply_crt_warp_effect img strength \<noteq> Inl IndexError"
proof
  assume "apply_crt_warp_effect img strength = Inl IndexError"
  from for_each_error [OF this [unfolded apply_crt_warp_effect_def]]
  obtain y t where "for_each [0..<width img] (warp_step img strength y) t = Inl IndexError"
    by auto
  from for_each_error [OF this]
  obtain x t' where "warp_step img strength y x t' = Inl IndexError" by auto
  then have "warp_pixel img strength x y = Inl IndexError"
    by (cases "warp_pixel img strength x y") (simp_all add: warp_step_def)
  then show False using warp_pixel_not_IndexError by simp
qed

text \<open>
  C9. When the bounds check on \<open>(x0, y0)\<close> passes, the clamped neighbours \<open>x1\<close> and \<open>y1\<close>
  are inside the image as well, so each of the four reads returns a pixel of the image;
  and the filter as a whole never reads out of range, whatever the strength.
\<close>

theorem warp_reads_in_bounds:
  assumes "0 \<le> x0" and "x0 < int (width img)" and "0 \<le> y0" and "y0 < int (height img)"
  shows "(let x1 = neighbour x0 (width img); y1 = neighbour y0 (height img)
          in 0 \<le> x1 \<and> x1 < int (width img) \<and> 0 \<le> y1 \<and> y1 < int (height img) \<and>
             load_get img x0 y0 = Inr (pix img (nat x0) (nat y0)) \<and>
             load_get img x1 y0 = Inr (pix img (nat x1) (nat y0)) \<and>
             load_get img x0 y1 = Inr (pix img (nat x0) (nat y1)) \<and>
             load_get img x1 y1 = Inr (pix img (nat x1) (nat y1))) \<and>
         apply_crt_warp_effect img strength \<noteq> Inl IndexError"
  using assms neighbour_bounds [of x0 "width img"] neighbour_bounds [of y0 "height img"]
    warp_not_IndexError [of img strength]
  by (simp add: Let_def load_get_in_bounds)

theorem warp_reads_in_bounds_witness:
  "(0::int) \<le> 0 \<and> 0 < int (width column4) \<and> (0::int) \<le> 3 \<and> 3 < int (height column4) \<and>
   neighbour 0 (width column4) = 0 \<and> neighbour 3 (height column4) = 3 \<and>
   load_get column4 (neighbour 0 (width column4)) (neighbour 3 (height column4))
     = Inr (pix column4 0 3) \<and>
   apply_crt_warp_effect column4 (1 / 10) \<noteq> Inl IndexError"
proof -
  have h: "(0::int) \<le> 0" "0 < int (width column4)" "(0::int) \<le> 3" "3 < int (height column4)"
    by (simp_all add: column4_def)
  have n: "neighbour 0 (width column4) = 0" "neighbour 3 (height column4) = 3"
    by (simp_all add: neighbour_def column4_def)
  from warp_reads_in_bounds [OF h, of "1 / 10"] h n show ?thesis
    unfolding Let_def by simp
qed

lemma load_set_size [simp]:
  "width (load_set t x y p) = width t" "height (load_set t x y p) = height t"
  by (simp_all add: load_set_def)

lemma load_set_pix: "pix (load_set t x y p) X Y = (if X = x \<and> Y = y then p else pix t X Y)"
  by (simp add: load_set_def)

lemma warp_step_Inr:
  "warp_step img s y x t = Inr t' \<longleftrightarrow>
     (\<exists>r. warp_pixel img s x y = Inr r \<and>
          t' = (case r of None \<Rightarrow> t | Some p \<Rightarrow> load_set t x y p))"
  by (auto simp: warp_step_def bind_err_Inr_iff)

lemma warp_row_frame:
  assumes "for_each xs (warp_step img s y) t = Inr t'"
  shows "width t' = width t \<and> height t' = height t \<and>
         (Y \<noteq> y \<or> X \<notin> set xs \<longrightarrow> pix t' X Y = pix t X Y)"
proof (rule for_each_preserves [OF assms, where
      Q = "\<lambda>u. width u = width t \<and> height u = height t \<and>
               (Y \<noteq> y \<or> X \<notin> set xs \<longrightarrow> pix u X Y = pix t X Y)"])
  show "width t = width t \<and> height t = height t \<and>
        (Y \<noteq> y \<or> X \<notin> set xs \<longrightarrow> pix t X Y = pix t X Y)" by simp
next
  fix i u u'
  assume "i \<in> set xs" and "warp_step img s y i u = Inr u'"
    and "width u = width t \<and> height u = height t \<and>
         (Y \<noteq> y \<or> X \<notin> set xs \<longrightarrow> pix u X Y = pix t X Y)"
  then show "width u' = width t \<and> height u' = height t \<and>
         (Y \<noteq> y \<or> X \<notin> set xs \<longrightarrow> pix u' X Y = pix t X Y)"
    by (auto simp: warp_step_Inr load_set_pix split: option.splits)
qed

lemma warp_row_own:
  assumes run: "for_each [0..<w] (warp_step img s Y) t = Inr t'" and X: "X < w"
  shows "\<exists>r. warp_pixel img s X Y = Inr r \<and>
             pix t' X Y = (case r of None \<Rightarrow> pix t X Y | Some p \<Rightarrow> p)"
proof -
  from run obtain t1 t2 where
    t1: "for_each [0..<X] (warp_step img s Y) t = Inr t1"
    and t2: "warp_step img s Y X t1 = Inr t2"
    and t3: "for_each [Suc X..<w] (warp_step img s Y) t2 = Inr t'"
    unfolding upt_split3 [OF X] for_each_append by (auto simp: bind_err_Inr_iff)
  have a: "pix t1 X Y = pix t X Y" using warp_row_frame [OF t1, of Y X] by simp
  have c: "pix t' X Y = pix t2 X Y" using warp_row_frame [OF t3, of Y X] by simp
  from t2 obtain r where r: "warp_pixel img s X Y = Inr r"
    and t2': "t2 = (case r of None \<Rightarrow> t1 | Some p \<Rightarrow> load_set t1 X Y p)"
    by (auto simp: warp_step_Inr)
  have "pix t2 X Y = (case r of None \<Rightarrow> pix t X Y | Some p \<Rightarrow> p)"
    unfolding t2' using a by (cases r) (simp_all add: load_set_pix)
  with r c show ?thesis by auto
qed

lemma warp_rows_frame:
  assumes "for_each ys (\<lambda>y. for_each xs (warp_step img s y)) t = Inr t'"
  shows "width t' = width t \<and> height t' = height t \<and>
         (Y \<notin> set ys \<longrightarrow> pix t' X Y = pix t X Y)"
proof (rule for_each_preserves [OF assms, where
      Q = "\<lambda>u. width u = width t \<and> height u = height t \<and>
               (Y \<notin> set ys \<longrightarrow> pix u X Y = pix t X Y)"])
  show "width t = width t \<and> height t = height t \<and>
        (Y \<notin> set ys \<longrightarrow> pix t X Y = pix t X Y)" by simp
next
  fix i u u'
  assume i: "i \<in> set ys" and step: "for_each xs (warp_step img s i) u = Inr u'"
    and Q: "width u = width t \<and> height u = height t \<and>
         (Y \<notin> set ys \<longrightarrow> pix u X Y = pix t X Y)"
  from warp_row_frame [OF step, of Y X]
  have f: "width u' = width u" "height u' = height u" "Y \<noteq> i \<Longrightarrow> pix u' X Y = pix u X Y"
    by simp_all
  show "width u' = width t \<and> height u' = height t \<and>
         (Y \<notin> set ys \<longrightarrow> pix u' X Y = pix t X Y)"
  proof (intro conjI impI)
    show "width u' = width t" "height u' = height t" using f Q by simp_all
    assume n: "Y \<notin> set ys"
    with i have "Y \<noteq> i" by auto
    then show "pix u' X Y = pix t X Y" using f(3) Q n by simp
  qed
qed

lemma warp_size:
  assumes "apply_crt_warp_effect img s = Inr out"
  shows "width out = width img \<and> height out = height img"
  using warp_rows_frame [OF assms [unfolded apply_crt_warp_effect_def]]
  by (simp add: image_new_def)

lemma warp_pix:
  assumes run: "apply_crt_warp_effect img s = Inr out"
    and X: "X < width img" and Y: "Y < height img"
  shows "\<exists>r. warp_pixel img s X Y = Inr r \<and>
             pix out X Y = (case r of None \<Rightarrow> black | Some p \<Rightarrow> p)"
proof -
  let ?row = "\<lambda>y. for_each [0..<width img] (warp_step img s y)"
  from run obtain t1 t2 where
    t1: "for_each [0..<Y] ?row (image_new (width img) (height img) black) = Inr t1"
    and t2: "?row Y t1 = Inr t2"
    and t3: "for_each [Suc Y..<height img] ?row t2 = Inr out"
    unfolding apply_crt_warp_effect_def upt_split3 [OF Y] for_each_append
    by (auto simp: bind_err_Inr_iff)
  have a: "pix t1 X Y = black" using warp_rows_frame [OF t1, of Y X] by (simp add: image_new_def)
  have c: "pix out X Y = pix t2 X Y" using warp_rows_frame [OF t3, of Y X] by simp
  from warp_row_own [OF t2 X] a c show ?thesis by (auto split: option.splits)
qed

lemma warp_total:
  assumes "\<And>x y. x < width img \<Longrightarrow> y < height img \<Longrightarrow> \<exists>r. warp_pixel img s x y = Inr r"
  shows "\<exists>out. apply_crt_warp_effect img s = Inr out"
  unfolding apply_crt_warp_effect_def
proof (intro for_each_total)
  fix y x t u
  assume "y \<in> set [0..<height img]" and "x \<in> set [0..<width img]"
  then have "\<exists>r. warp_pixel img s x y = Inr r" using assms by simp
  then show "\<exists>t'. warp_step img s y x u = Inr t'" by (auto simp: warp_step_def)
qed

lemma rnd_nat_minus_half:
  assumes "a < 2 ^ 31" and "b < 2 ^ 31"
  shows "rnd (real a - real b / 2) = real a - real b / 2"
proof -
  have "\<bar>2 * int a - int b\<bar> < 2 ^ 53" using assms by simp
  from rnd_half [OF this] show ?thesis by (simp add: field_simps)
qed

lemma rnd_nat_half:
  assumes "b < 2 ^ 31"
  shows "rnd (real b / 2) = real b / 2"
  using rnd_nat_minus_half [of 0 b] assms rnd_half [of "int b"] by simp

lemma py_float_nat: "a < 2 ^ 31 \<Longrightarrow> py_float (int a) = real a"
  using rnd_of_nat [of a] by (simp add: py_float_def)

lemma fl_sq_pos: "x \<noteq> 0 \<Longrightarrow> 0 < fl_sq x"
  unfolding fl_sq_def using zero_less_power2 [of x] by (intro rnd_pos) (simp add: power2_eq_square)

lemma fl_sq_nonneg: "0 \<le> fl_sq x"
  unfolding fl_sq_def by (intro rnd_nonneg) simp

lemma max_distance_pos:
  assumes "0 < cx"
  shows "0 < fl_sqrt (fl_add (fl_sq cx) (fl_sq cy))"
proof -
  have "0 < fl_sq cx + fl_sq cy" using fl_sq_pos [of cx] fl_sq_nonneg [of cy] assms by simp
  then have "0 < fl_add (fl_sq cx) (fl_sq cy)" unfolding fl_add_def by (rule rnd_pos)
  then have "0 < sqrt (fl_add (fl_sq cx) (fl_sq cy))" by simp
  then show ?thesis unfolding fl_sqrt_def by (rule rnd_pos)
qed

lemma warp_source_zero:
  assumes wf: "wf_image img" and x: "x < width img" and y: "y < height img"
  shows "warp_source img 0 x y = Inr (real x, real y)"
proof -
  have w: "width img < 2 ^ 31" and h: "height img < 2 ^ 31" using wf by (simp_all add: wf_image_def)
  have x31: "x < 2 ^ 31" and y31: "y < 2 ^ 31" using x y w h by simp_all
  define cx where "cx = real (width img) / 2"
  define cy where "cy = real (height img) / 2"
  have cx: "rnd (real (width img) / 2) = cx" unfolding cx_def by (rule rnd_nat_half [OF w])
  have cy: "rnd (real (height img) / 2) = cy" unfolding cy_def by (rule rnd_nat_half [OF h])
  have cxpos: "0 < cx" using x by (simp add: cx_def)
  define dx where "dx = real x - cx"
  define dy where "dy = real y - cy"
  have dx: "fl_sub (py_float (int x)) cx = dx"
    unfolding fl_sub_def py_float_nat [OF x31] dx_def cx_def by (rule rnd_nat_minus_half [OF x31 w])
  have dy: "fl_sub (py_float (int y)) cy = dy"
    unfolding fl_sub_def py_float_nat [OF y31] dy_def cy_def by (rule rnd_nat_minus_half [OF y31 h])
  have rdx: "rnd dx = dx" unfolding dx_def cx_def by (rule rnd_nat_minus_half [OF x31 w])
  have rdy: "rnd dy = dy" unfolding dy_def cy_def by (rule rnd_nat_minus_half [OF y31 h])
  define md where "md = fl_sqrt (fl_add (fl_sq cx) (fl_sq cy))"
  have md: "md \<noteq> 0" using max_distance_pos [OF cxpos, of cy] by (simp add: md_def)
  define dist where "dist = fl_sqrt (fl_add (fl_sq dx) (fl_sq dy))"
  have q: "fl_div dist md = Inr (rnd (dist / md))" using md by (simp add: fl_div_def)
  have distortion: "fl_add 1 (fl_mul 0 (fl_sq (rnd (dist / md)))) = 1"
    by (simp add: fl_add_def fl_mul_def)
  have qx: "fl_div dx 1 = Inr dx" and qy: "fl_div dy 1 = Inr dy"
    by (simp_all add: fl_div_def rdx rdy)
  have sx: "fl_add cx dx = real x" unfolding fl_add_def dx_def using rnd_of_nat [of x] x31 by simp
  have sy: "fl_add cy dy = real y" unfolding fl_add_def dy_def using rnd_of_nat [of y] y31 by simp
  show ?thesis
    unfolding warp_source_def Let_def cx cy dx dy md_def [symmetric] dist_def [symmetric]
    by (simp add: q distortion qx qy sx sy)
qed

lemma py_int_nat: "py_int (real n) = Inr (int n)" if "n < 2 ^ 31"
proof -
  have "real n < 2 ^ 31" using that by (metis of_nat_less_iff of_nat_numeral of_nat_power)
  also have "\<dots> < (2::real) ^ 1024" by simp
  finally have "\<not> 2 ^ 1024 \<le> \<bar>real n\<bar>" by simp
  then show ?thesis by (simp add: py_int_def trunc_def)
qed

lemma clip8_unat: "clip8 (int (unat (c :: u8))) = c"
proof -
  have "uint c < 2 ^ LENGTH(8)" by (rule unsigned_less)
  then have "uint c \<le> 255" by simp
  then have "max 0 (min 255 (uint c)) = uint c" by simp
  then show ?thesis by (simp add: clip8_def)
qed

lemma rnd_u8: "rnd (real (unat (c :: u8))) = real (unat c)"
proof -
  have "unat c < 2 ^ LENGTH(8)" by (rule unsigned_less)
  then have "unat c < 2 ^ 53" by simp
  then show ?thesis by (rule rnd_of_nat)
qed

lemma py_int_u8: "py_int (real (unat (c :: u8))) = Inr (int (unat c))"
proof -
  have "unat c < 2 ^ LENGTH(8)" by (rule unsigned_less)
  then have "unat c < 2 ^ 31" by simp
  then show ?thesis by (rule py_int_nat)
qed

lemma interpolate_zero:
  assumes "0 \<le> x0" "x0 < int (width img)" "0 \<le> y0" "y0 < int (height img)"
  shows "interpolate img 0 0 x0 y0 (neighbour x0 (width img)) (neighbour y0 (height img)) i
           = Inr (int (unat (chan (pix img (nat x0) (nat y0)) i)))"
  unfolding interpolate_in_bounds [OF assms]
  by (simp add: fl_add_def fl_mul_def fl_sub_def rnd_u8 py_int_u8 del: of_nat_unat)

lemma chan_pixel: "(chan p 0, chan p (Suc 0), chan p 2) = p"
  by (simp add: chan_def red_def green_def blue_def)

lemma warp_pixel_zero:
  assumes wf: "wf_image img" and x: "x < width img" and y: "y < height img"
  shows "warp_pixel img 0 x y = Inr (Some (pix img x y))"
proof -
  have w: "width img < 2 ^ 31" and h: "height img < 2 ^ 31" using wf by (simp_all add: wf_image_def)
  have x31: "x < 2 ^ 31" and y31: "y < 2 ^ 31" using x y w h by simp_all
  have a: "fl_sub (real x) (py_float (int x)) = 0" "fl_sub (real y) (py_float (int y)) = 0"
    by (simp_all add: fl_sub_def py_float_nat [OF x31] py_float_nat [OF y31])
  have c: "0 \<le> int x" "int x < int (width img)" "0 \<le> int y" "int y < int (height img)"
    using x y by simp_all
  show ?thesis
    unfolding warp_pixel_def warp_source_zero [OF assms] Let_def
    using c
    by (simp add: py_int_nat [OF x31] py_int_nat [OF y31] a interpolate_zero ink_def
        clip8_unat chan_pixel del: of_nat_unat)
qed

lemma abs_fl_add_le:
  assumes "\<bar>a\<bar> \<le> A" and "\<bar>b\<bar> \<le> B"
  shows "\<bar>fl_add a b\<bar> \<le> 2 * (A + B)"
proof -
  have "\<bar>rnd (a + b)\<bar> \<le> 2 * \<bar>a + b\<bar>" by (rule rnd_abs_le)
  moreover have "\<bar>a + b\<bar> \<le> \<bar>a\<bar> + \<bar>b\<bar>" by (rule abs_triangle_ineq)
  ultimately have "\<bar>rnd (a + b)\<bar> \<le> 2 * (\<bar>a\<bar> + \<bar>b\<bar>)" by simp
  also have "\<dots> \<le> 2 * (A + B)" using assms by simp
  finally show ?thesis by (simp only: fl_add_def)
qed

lemma abs_fl_sub_le:
  assumes "\<bar>a\<bar> \<le> A" and "\<bar>b\<bar> \<le> B"
  shows "\<bar>fl_sub a b\<bar> \<le> 2 * (A + B)"
proof -
  have "\<bar>rnd (a - b)\<bar> \<le> 2 * \<bar>a - b\<bar>" by (rule rnd_abs_le)
  moreover have "\<bar>a - b\<bar> \<le> \<bar>a\<bar> + \<bar>b\<bar>" by (rule abs_triangle_ineq4)
  ultimately have "\<bar>rnd (a - b)\<bar> \<le> 2 * (\<bar>a\<bar> + \<bar>b\<bar>)" by simp
  also have "\<dots> \<le> 2 * (A + B)" using assms by simp
  finally show ?thesis by (simp only: fl_sub_def)
qed

lemma abs_fl_mul_le:
  assumes "\<bar>a\<bar> \<le> A" and "\<bar>b\<bar> \<le> B"
  shows "\<bar>fl_mul a b\<bar> \<le> 2 * (A * B)"
proof -
  have "\<bar>a * b\<bar> \<le> A * B" unfolding abs_mult using assms by (intro mult_mono) simp_all
  moreover have "\<bar>rnd (a * b)\<bar> \<le> 2 * \<bar>a * b\<bar>" by (rule rnd_abs_le)
  ultimately have "\<bar>rnd (a * b)\<bar> \<le> 2 * (A * B)" by simp
  then show ?thesis by (simp only: fl_mul_def)
qed

lemma py_int_small: "\<bar>v\<bar> \<le> 2 ^ 100 \<Longrightarrow> py_int v = Inr (trunc v)"
proof -
  assume "\<bar>v\<bar> \<le> 2 ^ 100"
  moreover have "(2::real) ^ 100 < 2 ^ 1024" by simp
  ultimately have "\<not> 2 ^ 1024 \<le> \<bar>v\<bar>" by linarith
  then show ?thesis by (simp add: py_int_def)
qed

lemma abs_trunc_le: "\<bar>real_of_int (trunc v)\<bar> \<le> \<bar>v\<bar>"
  unfolding trunc_def by (auto; linarith)

lemma interpolate_total:
  assumes c: "0 \<le> x0" "x0 < int (width img)" "0 \<le> y0" "y0 < int (height img)"
    and a: "\<bar>a\<bar> \<le> 2 ^ 38" and b: "\<bar>b\<bar> \<le> 2 ^ 38"
  shows "\<exists>v. interpolate img a b x0 y0 (neighbour x0 (width img)) (neighbour y0 (height img)) i
              = Inr v"
proof -
  have one: "\<bar>1::real\<bar> \<le> 1" by simp
  have ch: "\<bar>real (unat (c :: u8))\<bar> \<le> 255" for c
    using unat_u8_le [of c] by (simp del: of_nat_unat)
  have a1: "\<bar>fl_sub 1 a\<bar> \<le> 2 ^ 40" using abs_fl_sub_le [OF one a] by simp
  have b1: "\<bar>fl_sub 1 b\<bar> \<le> 2 ^ 40" using abs_fl_sub_le [OF one b] by simp
  have a': "\<bar>a\<bar> \<le> 2 ^ 40" using a by simp
  have b': "\<bar>b\<bar> \<le> 2 ^ 40" using b by simp
  have w: "\<bar>fl_mul u v\<bar> \<le> 2 ^ 81" if "\<bar>u\<bar> \<le> 2 ^ 40" "\<bar>v\<bar> \<le> 2 ^ 40" for u v
    using abs_fl_mul_le [OF that] by simp
  have t: "\<bar>fl_mul (fl_mul u v) (real (unat (c :: u8)))\<bar> \<le> 2 ^ 90"
    if "\<bar>u\<bar> \<le> 2 ^ 40" "\<bar>v\<bar> \<le> 2 ^ 40" for u v c
    using abs_fl_mul_le [OF w [OF that] ch [of c]] by simp
  have s: "\<bar>fl_add u v\<bar> \<le> 4 * U" if "\<bar>u\<bar> \<le> U" "\<bar>v\<bar> \<le> 2 ^ 90" "2 ^ 90 \<le> U" for u v U
    using abs_fl_add_le [OF that(1,2)] that(3) by simp
  have "\<bar>fl_add
         (fl_add
           (fl_add
             (fl_mul (fl_mul (fl_sub 1 a) (fl_sub 1 b)) (real (unat (c00 :: u8))))
             (fl_mul (fl_mul a (fl_sub 1 b)) (real (unat (c10 :: u8)))))
           (fl_mul (fl_mul (fl_sub 1 a) b) (real (unat (c01 :: u8)))))
         (fl_mul (fl_mul a b) (real (unat (c11 :: u8))))\<bar> \<le> 4 * (4 * (4 * 2 ^ 90))"
    for c00 c10 c01 c11
    by (intro s t a1 b1 a' b') simp_all
  then have "\<bar>fl_add
         (fl_add
           (fl_add
             (fl_mul (fl_mul (fl_sub 1 a) (fl_sub 1 b)) (real (unat (c00 :: u8))))
             (fl_mul (fl_mul a (fl_sub 1 b)) (real (unat (c10 :: u8)))))
           (fl_mul (fl_mul (fl_sub 1 a) b) (real (unat (c01 :: u8)))))
         (fl_mul (fl_mul a b) (real (unat (c11 :: u8))))\<bar> \<le> 2 ^ 100"
    for c00 c10 c01 c11
    by (rule order_trans) simp
  then show ?thesis
    unfolding interpolate_in_bounds [OF c] by (simp only: py_int_small) simp
qed

lemma distortion_ge_half:
  assumes "0 \<le> strength"
  shows "1 / 2 \<le> fl_add 1 (fl_mul strength (fl_sq q))"
proof -
  define z where "z = fl_mul strength (fl_sq q)"
  have "0 \<le> strength * fl_sq q" using assms fl_sq_nonneg [of q] by simp
  then have z0: "0 \<le> z" unfolding z_def fl_mul_def by (rule rnd_nonneg)
  have "(1 + z) * (1 - 1 / 2 ^ 53) \<le> rnd (1 + z)" using z0 by (intro rnd_lower) simp
  moreover have "1 * (1 - 1 / 2 ^ 53) \<le> (1 + z) * (1 - 1 / 2 ^ 53)"
    using z0 by (intro mult_right_mono) simp_all
  moreover have "(1::real) / 2 \<le> 1 * (1 - 1 / 2 ^ 53)" by simp
  ultimately have "1 / 2 \<le> rnd (1 + z)" by linarith
  then show ?thesis by (simp only: fl_add_def z_def)
qed

lemma abs_div_distortion:
  assumes "1 / 2 \<le> D" and "\<bar>d\<bar> \<le> 2 ^ 31"
  shows "\<bar>rnd (d / D)\<bar> \<le> 2 ^ 33"
proof -
  have Dpos: "0 < D" using assms(1) by simp
  have "\<bar>d / D\<bar> = \<bar>d\<bar> / D" using Dpos by simp
  also have "\<dots> \<le> \<bar>d\<bar> / (1 / 2)" using assms(1) by (intro divide_left_mono) simp_all
  also have "\<dots> \<le> 2 ^ 32" using assms(2) by simp
  finally have "\<bar>d / D\<bar> \<le> 2 ^ 32" .
  moreover have "\<bar>rnd (d / D)\<bar> \<le> 2 * \<bar>d / D\<bar>" by (rule rnd_abs_le)
  ultimately show ?thesis by simp
qed

lemma warp_source_total:
  assumes wf: "wf_image img" and s: "0 \<le> strength"
    and x: "x < width img" and y: "y < height img"
  shows "\<exists>sx sy. warp_source img strength x y = Inr (sx, sy) \<and>
           \<bar>sx\<bar> \<le> 2 ^ 35 \<and> \<bar>sy\<bar> \<le> 2 ^ 35"
proof -
  have w: "width img < 2 ^ 31" and h: "height img < 2 ^ 31" using wf by (simp_all add: wf_image_def)
  have x31: "x < 2 ^ 31" and y31: "y < 2 ^ 31" using x y w h by simp_all
  have rw: "real (width img) < 2 ^ 31" and rh: "real (height img) < 2 ^ 31"
    and rx: "real x < 2 ^ 31" and ry: "real y < 2 ^ 31"
    using w h x31 y31 by (metis of_nat_less_iff of_nat_numeral of_nat_power)+
  define cx where "cx = real (width img) / 2"
  define cy where "cy = real (height img) / 2"
  have cx: "rnd (real (width img) / 2) = cx" unfolding cx_def by (rule rnd_nat_half [OF w])
  have cy: "rnd (real (height img) / 2) = cy" unfolding cy_def by (rule rnd_nat_half [OF h])
  have cxpos: "0 < cx" using x by (simp add: cx_def)
  have cypos: "0 < cy" using y by (simp add: cy_def)
  define dx where "dx = real x - cx"
  define dy where "dy = real y - cy"
  have dx: "fl_sub (py_float (int x)) cx = dx"
    unfolding fl_sub_def py_float_nat [OF x31] dx_def cx_def by (rule rnd_nat_minus_half [OF x31 w])
  have dy: "fl_sub (py_float (int y)) cy = dy"
    unfolding fl_sub_def py_float_nat [OF y31] dy_def cy_def by (rule rnd_nat_minus_half [OF y31 h])
  have adx: "\<bar>dx\<bar> \<le> 2 ^ 31" using rx rw cxpos unfolding dx_def cx_def by simp
  have ady: "\<bar>dy\<bar> \<le> 2 ^ 31" using ry rh cypos unfolding dy_def cy_def by simp
  have acx: "\<bar>cx\<bar> \<le> 2 ^ 33" using rw cxpos unfolding cx_def by simp
  have acy: "\<bar>cy\<bar> \<le> 2 ^ 33" using rh cypos unfolding cy_def by simp
  define md where "md = fl_sqrt (fl_add (fl_sq cx) (fl_sq cy))"
  have md: "md \<noteq> 0" using max_distance_pos [OF cxpos, of cy] by (simp add: md_def)
  define dist where "dist = fl_sqrt (fl_add (fl_sq dx) (fl_sq dy))"
  define q where "q = rnd (dist / md)"
  have q: "fl_div dist md = Inr q" using md by (simp add: fl_div_def q_def)
  define D where "D = fl_add 1 (fl_mul strength (fl_sq q))"
  have D: "1 / 2 \<le> D" unfolding D_def by (rule distortion_ge_half [OF s])
  then have Dne: "D \<noteq> 0" by simp
  have qx: "fl_div dx D = Inr (rnd (dx / D))" and qy: "fl_div dy D = Inr (rnd (dy / D))"
    using Dne by (simp_all add: fl_div_def)
  have "\<bar>fl_add cx (rnd (dx / D))\<bar> \<le> 2 * (2 ^ 33 + 2 ^ 33)"
    by (rule abs_fl_add_le [OF acx abs_div_distortion [OF D adx]])
  then have bx: "\<bar>fl_add cx (rnd (dx / D))\<bar> \<le> 2 ^ 35" by simp
  have "\<bar>fl_add cy (rnd (dy / D))\<bar> \<le> 2 * (2 ^ 33 + 2 ^ 33)"
    by (rule abs_fl_add_le [OF acy abs_div_distortion [OF D ady]])
  then have "by": "\<bar>fl_add cy (rnd (dy / D))\<bar> \<le> 2 ^ 35" by simp
  have "warp_source img strength x y = Inr (fl_add cx (rnd (dx / D)), fl_add cy (rnd (dy / D)))"
    unfolding warp_source_def Let_def cx cy dx dy md_def [symmetric] dist_def [symmetric]
    by (simp add: q D_def [symmetric] qx qy)
  with bx "by" show ?thesis by blast
qed

lemma frac_bound:
  assumes "\<bar>v\<bar> \<le> 2 ^ 35"
  shows "py_int v = Inr (trunc v) \<and> \<bar>fl_sub v (py_float (trunc v))\<bar> \<le> 2 ^ 38"
proof -
  have "\<bar>v\<bar> \<le> 2 ^ 100" using assms by (rule order_trans) simp
  then have A: "py_int v = Inr (trunc v)" by (rule py_int_small)
  have "\<bar>real_of_int (trunc v)\<bar> \<le> 2 ^ 35" using abs_trunc_le [of v] assms by linarith
  moreover have "\<bar>py_float (trunc v)\<bar> \<le> 2 * \<bar>real_of_int (trunc v)\<bar>"
    unfolding py_float_def by (rule rnd_abs_le)
  ultimately have "\<bar>py_float (trunc v)\<bar> \<le> 2 ^ 36" by simp
  from abs_fl_sub_le [OF assms this] have "\<bar>fl_sub v (py_float (trunc v))\<bar> \<le> 2 ^ 38" by simp
  with A show ?thesis by simp
qed

lemma warp_pixel_total:
  assumes wf: "wf_image img" and s: "0 \<le> strength"
    and x: "x < width img" and y: "y < height img"
  shows "\<exists>r. warp_pixel img strength x y = Inr r"
proof -
  from warp_source_total [OF assms] obtain sx sy where
    src: "warp_source img strength x y = Inr (sx, sy)"
    and bx: "\<bar>sx\<bar> \<le> 2 ^ 35" and "by": "\<bar>sy\<bar> \<le> 2 ^ 35" by blast
  define x0 where "x0 = trunc sx"
  define y0 where "y0 = trunc sy"
  define a where "a = fl_sub sx (py_float x0)"
  define b where "b = fl_sub sy (py_float y0)"
  have px: "py_int sx = Inr x0" and a: "\<bar>a\<bar> \<le> 2 ^ 38"
    using frac_bound [OF bx] by (simp_all add: x0_def a_def)
  have py: "py_int sy = Inr y0" and b: "\<bar>b\<bar> \<le> 2 ^ 38"
    using frac_bound [OF "by"] by (simp_all add: y0_def b_def)
  show ?thesis
  proof (cases "0 \<le> x0 \<and> x0 < int (width img) \<and> 0 \<le> y0 \<and> y0 < int (height img)")
    case True
    then have c: "0 \<le> x0" "x0 < int (width img)" "0 \<le> y0" "y0 < int (height img)" by simp_all
    from interpolate_total [OF c a b, of 0] obtain r where
      r: "interpolate img a b x0 y0 (neighbour x0 (width img)) (neighbour y0 (height img)) 0 = Inr r" ..
    from interpolate_total [OF c a b, of "Suc 0"] obtain g where
      g: "interpolate img a b x0 y0 (neighbour x0 (width img)) (neighbour y0 (height img)) (Suc 0)
            = Inr g" ..
    from interpolate_total [OF c a b, of 2] obtain b' where
      b': "interpolate img a b x0 y0 (neighbour x0 (width img)) (neighbour y0 (height img)) 2 = Inr b'" ..
    show ?thesis
      unfolding warp_pixel_def src Let_def
      by (simp add: px py a_def [symmetric] b_def [symmetric] c r g b')
  next
    case False
    have "warp_pixel img strength x y = Inr None"
      unfolding warp_pixel_def src Let_def bind_err_Inr prod.case px py x0_def [symmetric]
        y0_def [symmetric]
      by (simp only: False if_False)
    then show ?thesis by blast
  qed
qed

section \<open>The warp at strength zero, and the sizes of the results\<close>

lemma round_corners_size:
  "width (round_corners rounded_rectangle mix img radius) = width img \<and>
   height (round_corners rounded_rectangle mix img radius) = height img"
  by (simp add: round_corners_def paste_def image_new_def Let_def)

lemma warp_returns:
  assumes "wf_image img" and "0 \<le> strength"
  shows "\<exists>out. apply_crt_warp_effect img strength = Inr out"
  by (intro warp_total warp_pixel_total assms)

text \<open>
  C6. With \<open>strength = 0\<close> the distortion factor is exactly 1, the source coordinate of
  \<open>(x, y)\<close> is \<open>(x, y)\<close> itself, both interpolation weights are 0, and the filter returns
  an image of the same size in which every pixel equals the input pixel.
\<close>

theorem warp_zero_strength_identity:
  assumes "wf_image img" and "x < width img" and "y < height img"
  shows "\<exists>out. apply_crt_warp_effect img 0 = Inr out \<and>
           width out = width img \<and> height out = height img \<and>
           pix out x y = pix img x y"
proof -
  from warp_returns [OF assms(1), of 0] obtain out where
    out: "apply_crt_warp_effect img 0 = Inr out" by auto
  from warp_pix [OF out assms(2,3)] warp_pixel_zero [OF assms]
  have "pix out x y = pix img x y" by auto
  with out warp_size [OF out] show ?thesis by blast
qed

theorem warp_zero_strength_identity_witness:
  "wf_image column4 \<and> 0 < width column4 \<and> 3 < height column4 \<and>
   (\<exists>out. apply_crt_warp_effect column4 0 = Inr out \<and> width out = 1 \<and> height out = 4 \<and>
      pix out 0 3 = (0, 3, 0))"
proof -
  have h: "wf_image column4" "0 < width column4" "3 < height column4"
    by (simp_all add: wf_image_def column4_def)
  from warp_zero_strength_identity [OF h]
  have "\<exists>out. apply_crt_warp_effect column4 0 = Inr out \<and> width out = 1 \<and> height out = 4 \<and>
      pix out 0 3 = (0, 3, 0)"
    by (simp add: column4_def)
  with h show ?thesis by blast
qed

text \<open>
  C8. The radial warp (for a strength \<open>\<ge> 0\<close>, where it returns), the channel-shift filter
  and the corner mask each give an image of the width and height of their input.
\<close>

theorem filters_preserve_size:
  assumes "wf_image img" and "0 \<le> strength"
  shows "(\<exists>out. apply_crt_warp_effect img strength = Inr out \<and>
            width out = width img \<and> height out = height img) \<and>
         width (apply_refined_glitch_effect img shift_amount intensity) = width img \<and>
         height (apply_refined_glitch_effect img shift_amount intensity) = height img \<and>
         width (round_corners rounded_rectangle mix img radius) = width img \<and>
         height (round_corners rounded_rectangle mix img radius) = height img"
proof -
  from warp_returns [OF assms] obtain out where
    out: "apply_crt_warp_effect img strength = Inr out" by auto
  with warp_size [OF out]
  have "\<exists>out. apply_crt_warp_effect img strength = Inr out \<and>
            width out = width img \<and> height out = height img" by blast
  then show ?thesis
    using glitch_size [of img shift_amount intensity]
      round_corners_size [of rounded_rectangle mix img radius] by simp
qed

theorem filters_preserve_size_witness:
  "wf_image column4 \<and> (0::real) \<le> 1 / 10 \<and>
   (\<exists>out. apply_crt_warp_effect column4 (1 / 10) = Inr out \<and> width out = 1 \<and> height out = 4) \<and>
   width (apply_refined_glitch_effect column4 5 (4 / 5)) = 1 \<and>
   height (apply_refined_glitch_effect column4 5 (4 / 5)) = 4 \<and>
   width (round_corners (\<lambda>sz box radius fill x y. fill) (\<lambda>m s d. s) column4 100) = 1 \<and>
   height (round_corners (\<lambda>sz box radius fill x y. fill) (\<lambda>m s d. s) column4 100) = 4"
proof -
  have h: "wf_image column4" "(0::real) \<le> 1 / 10"
    by (simp_all add: wf_image_def column4_def)
  from filters_preserve_size [OF h, of 5 "4 / 5" "\<lambda>sz box radius fill x y. fill" "\<lambda>m s d. s" 100]
  have "(\<exists>out. apply_crt_warp_effect column4 (1 / 10) = Inr out \<and> width out = 1 \<and> height out = 4) \<and>
   width (apply_refined_glitch_effect column4 5 (4 / 5)) = 1 \<and>
   height (apply_refined_glitch_effect column4 5 (4 / 5)) = 4 \<and>
   width (round_corners (\<lambda>sz box radius fill x y. fill) (\<lambda>m s d. s) column4 100) = 1 \<and>
   height (round_corners (\<lambda>sz box radius fill x y. fill) (\<lambda>m s d. s) column4 100) = 4"
    by (simp add: column4_def)
  with h show ?thesis by blast
qed

end
